theory Spec2Isabelle
  imports Main
begin

section \<open>Strings and errors\<close>

text \<open>
  A statement is a JavaScript string. It is modelled as a list of 8-bit characters, read as
  the code units U+0000 to U+00FF. Every \<^verbatim>\<open>throw new Error(msg)\<close> of the source is the value
  \<open>Inl (Error msg)\<close>: the source tells its errors apart by their message only.
\<close>

datatype error = Error string

fun message :: "error \<Rightarrow> string" where
  "message (Error m) = m"

text \<open>\<^verbatim>\<open>s[i]\<close>: the character at an index, \<^verbatim>\<open>undefined\<close> outside the string.\<close>

definition charAt :: "string \<Rightarrow> int \<Rightarrow> char option" where
  "charAt s i = (if 0 \<le> i \<and> i < int (length s) then Some (s ! nat i) else None)"

text \<open>
  \<^verbatim>\<open>s.substring(start, end)\<close>: both indices are clamped to the string, and when the
  start lies behind the end the two are exchanged.
\<close>

definition clamp :: "string \<Rightarrow> int \<Rightarrow> nat" where
  "clamp s i = min (nat (max i 0)) (length s)"

definition substring :: "string \<Rightarrow> int \<Rightarrow> int \<Rightarrow> string" where
  "substring s start end' =
     (let finalStart = clamp s start; finalEnd = clamp s end';
          from = min finalStart finalEnd; to = max finalStart finalEnd
      in take (to - from) (drop from s))"

text \<open>\<^verbatim>\<open>s.substring(start)\<close>: to the end of the string.\<close>

definition substringFrom :: "string \<Rightarrow> int \<Rightarrow> string" where
  "substringFrom s start = drop (clamp s start) s"

text \<open>\<^verbatim>\<open>s.slice(start, end)\<close> and \<^verbatim>\<open>s.slice(start)\<close> at indices that are not negative.\<close>

definition slice :: "string \<Rightarrow> nat \<Rightarrow> nat \<Rightarrow> string" where
  "slice s start end' = take (end' - start) (drop start s)"

definition sliceFrom :: "string \<Rightarrow> nat \<Rightarrow> string" where
  "sliceFrom s start = drop start s"

text \<open>\<^verbatim>\<open>s.indexOf(pattern)\<close>: the first index where the pattern starts, or -1.\<close>

definition indexOf :: "string \<Rightarrow> string \<Rightarrow> int" where
  "indexOf s pattern =
     (case find (\<lambda>i. take (length pattern) (drop i s) = pattern) [0 ..< Suc (length s)] of
        None \<Rightarrow> - 1
      | Some i \<Rightarrow> int i)"

text \<open>\<^verbatim>\<open>array.indexOf(x)\<close>.\<close>

definition arrayIndexOf :: "'a list \<Rightarrow> 'a \<Rightarrow> int" where
  "arrayIndexOf xs x =
     (case find (\<lambda>i. xs ! i = x) [0 ..< length xs] of None \<Rightarrow> - 1 | Some i \<Rightarrow> int i)"

text \<open>
  \<^verbatim>\<open>s.toUpperCase()\<close> on the modelled alphabet. The sharp s becomes two letters; the two
  letters whose capital lies above U+00FF (micro sign, y with diaeresis) are cut to the
  low eight bits of it, which keeps them different from the letter itself.
\<close>

definition toUpperChar :: "char \<Rightarrow> string" where
  "toUpperChar c =
     (let n = (of_char c :: nat) in
      if (97 \<le> n \<and> n \<le> 122) \<or> (224 \<le> n \<and> n \<le> 254 \<and> n \<noteq> 247) then [char_of (n - 32)]
      else if n = 223 then ''SS''
      else if n = 181 then [char_of (156 :: nat)]
      else if n = 255 then [char_of (120 :: nat)]
      else [c])"

definition toUpperCase :: "string \<Rightarrow> string" where
  "toUpperCase s = concat (map toUpperChar s)"

section \<open>Values of the runtime\<close>

text \<open>
  The values the program handles: what \<^verbatim>\<open>JSON.parse\<close> returns, the request body, the
  answers of the HTTP client. An object is the list of its own properties in the order
  they were created. A number \<open>JNumber m e\<close> is the decimal \<open>m * 10 ^ e\<close>; the rounding
  of the runtime's binary64 numbers is not modelled.
\<close>

datatype jsval =
    JUndefined
  | JNull
  | JBool bool
  | JNumber int int
  | JString string
  | JArray "jsval list"
  | JObject "(string \<times> jsval) list"

definition isDigit :: "char \<Rightarrow> bool" where
  "isDigit c = (c \<in> set ''0123456789'')"

text \<open>The decimal digits of an integer that is not negative, and their value.\<close>

function decimal :: "int \<Rightarrow> string" where
  "decimal n =
     (if n < 10 then [char_of (nat (48 + n))]
      else decimal (n div 10) @ [char_of (nat (48 + n mod 10))])"
  by pat_completeness auto
termination
  by (relation "measure nat") auto

declare decimal.simps [simp del]

definition digitsToInt :: "string \<Rightarrow> int" where
  "digitsToInt ds = foldl (\<lambda>acc c. 10 * acc + (of_char c - 48)) 0 ds"

text \<open>
  \<^verbatim>\<open>String(x)\<close> for a number: the digits without trailing zeros, \<open>n\<close> the position of the
  decimal point, plain notation up to 21 digits and down to six leading zeros, exponent
  notation beyond.
\<close>

definition numberToString :: "int \<Rightarrow> int \<Rightarrow> string" where
  "numberToString m e =
     (if m = 0 then ''0''
      else
        (let ds = decimal \<bar>m\<bar>;
             z = length (takeWhile (\<lambda>c. c = CHR ''0'') (rev ds));
             s = take (length ds - z) ds;
             k = int (length s);
             n = k + e + int z;
             body =
               (if k \<le> n \<and> n \<le> 21 then s @ replicate (nat (n - k)) CHR ''0''
                else if 0 < n \<and> n \<le> 21 then take (nat n) s @ ''.'' @ drop (nat n) s
                else if - 6 < n \<and> n \<le> 0 then ''0.'' @ replicate (nat (- n)) CHR ''0'' @ s
                else (if k = 1 then s else hd s # ''.'' @ tl s) @ ''e''
                     @ (if n - 1 < 0 then ''-'' else ''+'') @ decimal \<bar>n - 1\<bar>)
         in (if m < 0 then ''-'' else '''') @ body))"

fun truthy :: "jsval \<Rightarrow> bool" where
  "truthy JUndefined = False"
| "truthy JNull = False"
| "truthy (JBool b) = b"
| "truthy (JNumber m e) = (m \<noteq> 0)"
| "truthy (JString s) = (s \<noteq> [])"
| "truthy (JArray xs) = True"
| "truthy (JObject props) = True"

text \<open>
  A property name is an array index when it is the decimal form of an integer below
  \<open>2^32 - 1\<close>. \<open>getProp\<close> reads an own property: of an object, an element or the length
  of an array, a character or the length of a string.
\<close>

definition isArrayIndex :: "string \<Rightarrow> bool" where
  "isArrayIndex k =
     (k \<noteq> [] \<and> list_all isDigit k \<and> (k = ''0'' \<or> hd k \<noteq> CHR ''0'')
      \<and> digitsToInt k < 4294967295)"

definition lookup :: "(string \<times> jsval) list \<Rightarrow> string \<Rightarrow> jsval" where
  "lookup props k = (case map_of props k of None \<Rightarrow> JUndefined | Some v \<Rightarrow> v)"

fun getProp :: "jsval \<Rightarrow> string \<Rightarrow> jsval" where
  "getProp (JObject props) k = lookup props k"
| "getProp (JArray xs) k =
     (if k = ''length'' then JNumber (int (length xs)) 0
      else if isArrayIndex k \<and> digitsToInt k < int (length xs) then xs ! nat (digitsToInt k)
      else JUndefined)"
| "getProp (JString s) k =
     (if k = ''length'' then JNumber (int (length s)) 0
      else if isArrayIndex k \<and> digitsToInt k < int (length s) then JString [s ! nat (digitsToInt k)]
      else JUndefined)"
| "getProp v k = JUndefined"

text \<open>
  \<^verbatim>\<open>Object.keys(v)\<close>: the array indices in ascending order first, then the other names in
  the order of their creation. The source never passes \<^verbatim>\<open>null\<close> or \<^verbatim>\<open>undefined\<close>.
\<close>

definition objectKeys :: "jsval \<Rightarrow> string list" where
  "objectKeys v =
     (case v of
        JObject props \<Rightarrow>
          sort_key digitsToInt (filter isArrayIndex (map fst props))
          @ filter (\<lambda>k. \<not> isArrayIndex k) (map fst props)
      | JArray xs \<Rightarrow> map (\<lambda>i. decimal (int i)) [0 ..< length xs]
      | JString s \<Rightarrow> map (\<lambda>i. decimal (int i)) [0 ..< length s]
      | _ \<Rightarrow> [])"

text \<open>\<^verbatim>\<open>parts.join(sep)\<close>.\<close>

fun joinWith :: "string \<Rightarrow> string list \<Rightarrow> string" where
  "joinWith sep [] = []"
| "joinWith sep [x] = x"
| "joinWith sep (x # y # ys) = x @ sep @ joinWith sep (y # ys)"

fun sequence :: "(error + 'a) list \<Rightarrow> error + 'a list" where
  "sequence [] = Inr []"
| "sequence (r # rs) =
     (case r of
        Inl e \<Rightarrow> Inl e
      | Inr x \<Rightarrow> (case sequence rs of Inl e \<Rightarrow> Inl e | Inr xs \<Rightarrow> Inr (x # xs)))"

text \<open>
  \<^verbatim>\<open>String(v)\<close>. An array is its elements joined by commas, \<^verbatim>\<open>null\<close> and \<^verbatim>\<open>undefined\<close>
  elements left empty. An object is \<^verbatim>\<open>[object Object]\<close>, unless it has a property
  \<^verbatim>\<open>toString\<close> of its own: a decoded value is never a function, so the conversion raises.
\<close>

fun String_of :: "jsval \<Rightarrow> error + string" where
  "String_of JUndefined = Inr ''undefined''"
| "String_of JNull = Inr ''null''"
| "String_of (JBool b) = Inr (if b then ''true'' else ''false'')"
| "String_of (JNumber m e) = Inr (numberToString m e)"
| "String_of (JString s) = Inr s"
| "String_of (JArray xs) =
     (case sequence (map (\<lambda>x. if x = JUndefined \<or> x = JNull then Inr [] else String_of x) xs) of
        Inl e \<Rightarrow> Inl e
      | Inr parts \<Rightarrow> Inr (joinWith '','' parts))"
| "String_of (JObject props) =
     (case map_of props ''toString'' of
        None \<Rightarrow> Inr ''[object Object]''
      | Some f \<Rightarrow> Inl (Error ''Cannot convert object to primitive value''))"

section \<open>Percent encoding\<close>

text \<open>
  \<^verbatim>\<open>encodeURIComponent\<close>: letters, digits and \<^verbatim>\<open>- _ . ! ~ * ' ( )\<close> are kept, every other
  character becomes the bytes of its UTF-8 form, each as a percent sign and two capital
  hexadecimal digits.
\<close>

definition isUnreserved :: "char \<Rightarrow> bool" where
  "isUnreserved c =
     (c \<in> set ''ABCDEFGHIJKLMNOPQRSTUVWXYZabcdefghijklmnopqrstuvwxyz0123456789-_.!~*()''
      \<or> c = CHR 0x27)"

definition hexDigit :: "nat \<Rightarrow> char" where
  "hexDigit n = ''0123456789ABCDEF'' ! n"

definition percentByte :: "nat \<Rightarrow> string" where
  "percentByte n = [CHR ''%'', hexDigit (n div 16), hexDigit (n mod 16)]"

definition encodeChar :: "char \<Rightarrow> string" where
  "encodeChar c =
     (if isUnreserved c then [c]
      else (let n = (of_char c :: nat)
            in if n < 128 then percentByte n
               else percentByte (192 + n div 64) @ percentByte (128 + n mod 64)))"

definition encodeURIComponent :: "string \<Rightarrow> string" where
  "encodeURIComponent s = concat (map encodeChar s)"

section \<open>JSON.parse\<close>

text \<open>
  \<^verbatim>\<open>JSON.parse\<close> in two passes. The first cuts the text into tokens: punctuation, string
  literals with their escapes decoded, and the longest runs of number characters and of
  lower-case letters. The second reads the tokens with a stack of the arrays and objects
  that are still open. \<open>None\<close> is the \<^verbatim>\<open>SyntaxError\<close>. An escape \<^verbatim>\<open>\uXXXX\<close> above
  U+00FF is cut to its low eight bits.
\<close>

datatype token =
    TLBrace | TRBrace | TLBracket | TRBracket | TColon | TComma
  | TString string | TNumber string | TWord string

definition isWhitespace :: "char \<Rightarrow> bool" where
  "isWhitespace c = (c = CHR 0x20 \<or> c = CHR 0x09 \<or> c = CHR 0x0A \<or> c = CHR 0x0D)"

definition isNumberChar :: "char \<Rightarrow> bool" where
  "isNumberChar c = (c \<in> set ''0123456789+-.eE'')"

definition isLetter :: "char \<Rightarrow> bool" where
  "isLetter c = (c \<in> set ''abcdefghijklmnopqrstuvwxyz'')"

definition hexValue :: "char \<Rightarrow> nat option" where
  "hexValue c =
     (let n = (of_char c :: nat)
      in if 48 \<le> n \<and> n \<le> 57 then Some (n - 48)
         else if 65 \<le> n \<and> n \<le> 70 then Some (n - 55)
         else if 97 \<le> n \<and> n \<le> 102 then Some (n - 87)
         else None)"

definition escapeChar :: "char \<Rightarrow> char option" where
  "escapeChar c =
     (if c = CHR 0x22 then Some (CHR 0x22)
      else if c = CHR 0x5C then Some (CHR 0x5C)
      else if c = CHR ''/'' then Some CHR ''/''
      else if c = CHR ''b'' then Some (CHR 0x08)
      else if c = CHR ''f'' then Some (CHR 0x0C)
      else if c = CHR ''n'' then Some (CHR 0x0A)
      else if c = CHR ''r'' then Some (CHR 0x0D)
      else if c = CHR ''t'' then Some (CHR 0x09)
      else None)"

fun lexString :: "string \<Rightarrow> (string \<times> string) option" where
  "lexString [] = None"
| "lexString [c] = (if c = CHR 0x22 then Some ([], []) else None)"
| "lexString (c # d # cs) =
     (if c = CHR 0x22 then Some ([], d # cs)
      else if c = CHR 0x5C then
        (if d = CHR ''u'' then
           (case cs of
              h1 # h2 # h3 # h4 # rest \<Rightarrow>
                (case (hexValue h1, hexValue h2, hexValue h3, hexValue h4) of
                   (Some a, Some b, Some c', Some d') \<Rightarrow>
                     map_option (\<lambda>(s, r). (char_of (4096 * a + 256 * b + 16 * c' + d') # s, r))
                       (lexString rest)
                 | _ \<Rightarrow> None)
            | _ \<Rightarrow> None)
         else
           (case escapeChar d of
              None \<Rightarrow> None
            | Some x \<Rightarrow> map_option (\<lambda>(s, r). (x # s, r)) (lexString cs)))
      else if (of_char c :: nat) < 32 then None
      else map_option (\<lambda>(s, r). (c # s, r)) (lexString (d # cs)))"

lemma lexString_shorter: "lexString cs = Some (s, rest) \<Longrightarrow> length rest < length cs"
proof (induction cs arbitrary: s rest rule: lexString.induct)
  case 1
  then show ?case by simp
next
  case (2 c)
  then show ?case by (simp split: if_splits)
next
  case (3 c d cs)
  then show ?case
    by (fastforce split: if_splits list.splits option.splits)
qed

function lex :: "string \<Rightarrow> token list option" where
  "lex [] = Some []"
| "lex (c # cs) =
     (if isWhitespace c then lex cs
      else if c = CHR ''{'' then map_option ((#) TLBrace) (lex cs)
      else if c = CHR ''}'' then map_option ((#) TRBrace) (lex cs)
      else if c = CHR ''['' then map_option ((#) TLBracket) (lex cs)
      else if c = CHR '']'' then map_option ((#) TRBracket) (lex cs)
      else if c = CHR '':'' then map_option ((#) TColon) (lex cs)
      else if c = CHR '','' then map_option ((#) TComma) (lex cs)
      else if c = CHR 0x22 then
        (case lexString cs of
           None \<Rightarrow> None
         | Some (s, rest) \<Rightarrow> map_option ((#) (TString s)) (lex rest))
      else if isNumberChar c then
        map_option ((#) (TNumber (c # takeWhile isNumberChar cs))) (lex (dropWhile isNumberChar cs))
      else if isLetter c then
        map_option ((#) (TWord (c # takeWhile isLetter cs))) (lex (dropWhile isLetter cs))
      else None)"
  by pat_completeness auto
termination
  by (relation "measure length")
     (auto simp: less_Suc_eq_le length_dropWhile_le dest: lexString_shorter)

declare lex.simps [simp del]

definition parseNumber :: "string \<Rightarrow> jsval option" where
  "parseNumber lexeme =
     (let negative = (take 1 lexeme = ''-'');
          s1 = (if negative then drop 1 lexeme else lexeme);
          intPart = takeWhile isDigit s1;
          s2 = dropWhile isDigit s1;
          hasFrac = (take 1 s2 = ''.'');
          fracPart = (if hasFrac then takeWhile isDigit (drop 1 s2) else []);
          s3 = (if hasFrac then dropWhile isDigit (drop 1 s2) else s2);
          hasExp = (take 1 s3 = ''e'' \<or> take 1 s3 = ''E'');
          s4 = (if hasExp then drop 1 s3 else s3);
          expNegative = (take 1 s4 = ''-'');
          s5 = (if hasExp \<and> (take 1 s4 = ''-'' \<or> take 1 s4 = ''+'') then drop 1 s4 else s4);
          expPart = (if hasExp then takeWhile isDigit s5 else []);
          s6 = (if hasExp then dropWhile isDigit s5 else s5)
      in if intPart = [] \<or> (length intPart > 1 \<and> hd intPart = CHR ''0'')
            \<or> (hasFrac \<and> fracPart = []) \<or> (hasExp \<and> expPart = []) \<or> s6 \<noteq> []
         then None
         else Some (JNumber ((if negative then - 1 else 1) * digitsToInt (intPart @ fracPart))
                            ((if expNegative then - 1 else 1) * digitsToInt expPart
                             - int (length fracPart))))"

definition parseWord :: "string \<Rightarrow> jsval option" where
  "parseWord w =
     (if w = ''true'' then Some (JBool True)
      else if w = ''false'' then Some (JBool False)
      else if w = ''null'' then Some JNull
      else None)"

text \<open>
  Defining a property: a name the object already has keeps its place and takes the new
  value, a new name goes last.
\<close>

definition setProp :: "(string \<times> jsval) list \<Rightarrow> string \<Rightarrow> jsval \<Rightarrow> (string \<times> jsval) list" where
  "setProp props k v =
     (if k \<in> fst ` set props then map (\<lambda>(k', v'). if k' = k then (k', v) else (k', v')) props
      else props @ [(k, v)])"

datatype frame =
    InArray "jsval list"
  | InObject "(string \<times> jsval) list" string

datatype expecting =
    AValue
  | AValueOrClose
  | AKey "(string \<times> jsval) list"
  | AKeyOrClose
  | AColon "(string \<times> jsval) list" string
  | After jsval

definition valueStart :: "frame list \<Rightarrow> token \<Rightarrow> (expecting \<times> frame list) option" where
  "valueStart stack t =
     (case t of
        TLBracket \<Rightarrow> Some (AValueOrClose, InArray [] # stack)
      | TLBrace \<Rightarrow> Some (AKeyOrClose, stack)
      | TString s \<Rightarrow> Some (After (JString s), stack)
      | TNumber lexeme \<Rightarrow> map_option (\<lambda>v. (After v, stack)) (parseNumber lexeme)
      | TWord w \<Rightarrow> map_option (\<lambda>v. (After v, stack)) (parseWord w)
      | _ \<Rightarrow> None)"

definition afterValue :: "jsval \<Rightarrow> frame list \<Rightarrow> token \<Rightarrow> (expecting \<times> frame list) option" where
  "afterValue v stack t =
     (case stack of
        [] \<Rightarrow> None
      | InArray xs # rest \<Rightarrow>
          (case t of
             TComma \<Rightarrow> Some (AValue, InArray (xs @ [v]) # rest)
           | TRBracket \<Rightarrow> Some (After (JArray (xs @ [v])), rest)
           | _ \<Rightarrow> None)
      | InObject props k # rest \<Rightarrow>
          (case t of
             TComma \<Rightarrow> Some (AKey (setProp props k v), rest)
           | TRBrace \<Rightarrow> Some (After (JObject (setProp props k v)), rest)
           | _ \<Rightarrow> None))"

definition step :: "expecting \<Rightarrow> frame list \<Rightarrow> token \<Rightarrow> (expecting \<times> frame list) option" where
  "step a stack t =
     (case a of
        AValue \<Rightarrow> valueStart stack t
      | AValueOrClose \<Rightarrow>
          (if t = TRBracket
           then (case stack of InArray xs # rest \<Rightarrow> Some (After (JArray xs), rest) | _ \<Rightarrow> None)
           else valueStart stack t)
      | AKeyOrClose \<Rightarrow>
          (case t of
             TRBrace \<Rightarrow> Some (After (JObject []), stack)
           | TString k \<Rightarrow> Some (AColon [] k, stack)
           | _ \<Rightarrow> None)
      | AKey props \<Rightarrow> (case t of TString k \<Rightarrow> Some (AColon props k, stack) | _ \<Rightarrow> None)
      | AColon props k \<Rightarrow> (case t of TColon \<Rightarrow> Some (AValue, InObject props k # stack) | _ \<Rightarrow> None)
      | After v \<Rightarrow> afterValue v stack t)"

fun parseTokens :: "expecting \<Rightarrow> frame list \<Rightarrow> token list \<Rightarrow> jsval option" where
  "parseTokens a stack [] = (case a of After v \<Rightarrow> (if stack = [] then Some v else None) | _ \<Rightarrow> None)"
| "parseTokens a stack (t # ts) =
     (case step a stack t of None \<Rightarrow> None | Some (a', stack') \<Rightarrow> parseTokens a' stack' ts)"

definition JSON_parse :: "string \<Rightarrow> jsval option" where
  "JSON_parse text = (case lex text of None \<Rightarrow> None | Some ts \<Rightarrow> parseTokens AValue [] ts)"

section \<open>The segmenter\<close>

text \<open>
  The scan of \<^verbatim>\<open>splitByPipes\<close>: \<open>i\<close> is the loop index, \<open>tokenStartIndex\<close> and \<open>segments\<close>
  are the two variables the loop updates. It returns them when the index reaches the end.
  The first check of \<^verbatim>\<open>splitByPipes\<close>, that the statement is a string, holds by the type:
  the handler, its only caller, has made the same check before the call.
\<close>

function splitLoop :: "string \<Rightarrow> nat \<Rightarrow> int \<Rightarrow> string list \<Rightarrow> error + (int \<times> string list)" where
  "splitLoop statement i tokenStartIndex segments =
     (if i < length statement then
        (if statement ! i = CHR ''|'' then
           (let beforeIndex = int i - 1;
                afterIndex = int i + 1;
                beforeBeforeIndex = int i - 2;
                afterAfterIndex = int i + 2
            in if beforeIndex < 0
                  \<or> afterIndex \<ge> int (length statement)
                  \<or> charAt statement beforeIndex \<noteq> Some CHR '' ''
                  \<or> charAt statement afterIndex \<noteq> Some CHR '' ''
                  \<or> (beforeBeforeIndex \<ge> 0 \<and> charAt statement beforeBeforeIndex = Some CHR '' '')
                  \<or> (afterAfterIndex < int (length statement)
                       \<and> charAt statement afterAfterIndex = Some CHR '' '')
               then Inl (Error ''Invalid spacing around pipe delimiter'')
               else (let segment = substring statement tokenStartIndex beforeIndex
                     in if length segment = 0
                        then Inl (Error ''Invalid spacing around pipe delimiter'')
                        else splitLoop statement (i + 1) (int i + 2) (segments @ [segment])))
         else splitLoop statement (i + 1) tokenStartIndex segments)
      else Inr (tokenStartIndex, segments))"
  by pat_completeness auto
termination
  by (relation "measure (\<lambda>(statement, i, tokenStartIndex, segments). length statement - i)") auto

declare splitLoop.simps [simp del]

definition splitByPipes :: "string \<Rightarrow> error + string list" where
  "splitByPipes statement =
     (if length statement = 0 then Inl (Error ''Missing required HTTP keyword'')
      else if charAt statement 0 = Some CHR '' ''
              \<or> charAt statement (int (length statement) - 1) = Some CHR '' ''
      then Inl (Error ''Multiple spaces found where single space expected'')
      else (case splitLoop statement 0 0 [] of
              Inl e \<Rightarrow> Inl e
            | Inr (tokenStartIndex, segments) \<Rightarrow>
                (let lastSegment = substringFrom statement tokenStartIndex
                 in if length lastSegment = 0
                    then Inl (Error ''Invalid spacing around pipe delimiter'')
                    else Inr (segments @ [lastSegment]))))"

section \<open>The keyword extractor\<close>

text \<open>
  \<^verbatim>\<open>ensureSingleSpaceAfterKeyword\<close> returns a boolean or raises. \<open>expectedPrefix\<close> is the
  keyword followed by one space.
\<close>

definition ensureSingleSpaceAfterKeyword :: "string \<Rightarrow> string \<Rightarrow> error + bool" where
  "ensureSingleSpaceAfterKeyword segment keyword =
     (if indexOf segment keyword \<noteq> 0 then Inr False
      else (let expectedPrefix = keyword @ '' ''
            in if slice segment 0 (length expectedPrefix) \<noteq> expectedPrefix then Inr False
               else if length segment = length expectedPrefix
               then Inl (Error ''Missing space after keyword'')
               else if charAt segment (int (length expectedPrefix)) = Some CHR '' ''
               then Inl (Error ''Multiple spaces found where single space expected'')
               else Inr True))"

section \<open>The section decoder\<close>

text \<open>
  \<^verbatim>\<open>parseJSONStrict\<close>: the decoded value, or the error that names the section. For any
  other section name the source raises the \<^verbatim>\<open>SyntaxError\<close> of the runtime again; its
  message is the engine's own, and the assembler never asks for it.
\<close>

definition parseJSONStrict :: "string \<Rightarrow> string \<Rightarrow> error + jsval" where
  "parseJSONStrict jsonString sectionName =
     (case JSON_parse jsonString of
        Some v \<Rightarrow> Inr v
      | None \<Rightarrow>
          (if sectionName = ''HEADERS'' then Inl (Error ''Invalid JSON format in HEADERS section'')
           else if sectionName = ''QUERY'' then Inl (Error ''Invalid JSON format in QUERY section'')
           else if sectionName = ''BODY'' then Inl (Error ''Invalid JSON format in BODY section'')
           else Inl (Error ''SyntaxError'')))"

section \<open>The URL builder\<close>

text \<open>
  The loop of \<^verbatim>\<open>buildQueryString\<close>: \<open>kIndex\<close> is the loop index, \<open>parts\<close> the array the
  loop appends to. \<^verbatim>\<open>String(key)\<close> is the key itself, a string already.
\<close>

function buildLoop :: "jsval \<Rightarrow> string list \<Rightarrow> nat \<Rightarrow> string list \<Rightarrow> error + string list" where
  "buildLoop queryObject keys kIndex parts =
     (if kIndex < length keys then
        (let key = keys ! kIndex;
             value = getProp queryObject key;
             encodedKey = encodeURIComponent key
         in case String_of value of
              Inl e \<Rightarrow> Inl e
            | Inr s \<Rightarrow>
                (let encodedValue = encodeURIComponent s
                 in buildLoop queryObject keys (kIndex + 1)
                      (parts @ [encodedKey @ ''='' @ encodedValue])))
      else Inr parts)"
  by pat_completeness auto
termination
  by (relation "measure (\<lambda>(queryObject, keys, kIndex, parts). length keys - kIndex)") auto

declare buildLoop.simps [simp del]

definition buildQueryString :: "jsval \<Rightarrow> error + string" where
  "buildQueryString queryObject =
     (let keys = objectKeys (if truthy queryObject then queryObject else JObject [])
      in if length keys = 0 then Inr []
         else (case buildLoop queryObject keys 0 [] of
                 Inl e \<Rightarrow> Inl e
               | Inr parts \<Rightarrow> Inr (joinWith ''&'' parts)))"

definition constructFullURL :: "string \<Rightarrow> jsval \<Rightarrow> error + string" where
  "constructFullURL baseURL queryObject =
     (case buildQueryString queryObject of
        Inl e \<Rightarrow> Inl e
      | Inr queryString \<Rightarrow>
          (if queryString = [] then Inr baseURL
           else (let hasQuery = (indexOf baseURL ''?'' \<noteq> - 1)
                 in Inr (baseURL @ (if hasQuery then ''&'' else ''?'') @ queryString))))"

section \<open>The request assembler\<close>

text \<open>The descriptor \<^verbatim>\<open>parseReqline\<close> returns; \<open>method'\<close> is its field \<^verbatim>\<open>method\<close>.\<close>

record descriptor =
  method' :: string
  url :: string
  headers :: jsval
  query :: jsval
  body :: jsval
  full_url :: string

text \<open>The variables the loop over the segments updates.\<close>

record locals =
  seen :: "string list"
  httpMethod :: string
  baseURL :: string
  headersVar :: jsval
  queryVar :: jsval
  bodyVar :: jsval

definition allowedKeywords :: "string list" where
  "allowedKeywords = [''HTTP'', ''URL'', ''HEADERS'', ''QUERY'', ''BODY'']"

text \<open>One round of the loop of \<^verbatim>\<open>parseReqline\<close>, on one segment.\<close>

definition processSegment :: "locals \<Rightarrow> string \<Rightarrow> error + locals" where
  "processSegment vars segment =
     (let firstSpaceIndex = indexOf segment '' ''
      in if firstSpaceIndex = - 1 then Inl (Error ''Missing space after keyword'')
         else
           (let keyword = slice segment 0 (nat firstSpaceIndex);
                value = sliceFrom segment (nat (firstSpaceIndex + 1))
            in if keyword \<noteq> toUpperCase keyword then Inl (Error ''Keywords must be uppercase'')
               else if arrayIndexOf allowedKeywords keyword = - 1
               then Inl (Error ''Keywords must be uppercase'')
               else if keyword \<in> set (seen vars)
               then Inl (Error (''Duplicate section '' @ keyword))
               else
                 (case ensureSingleSpaceAfterKeyword segment keyword of
                    Inl e \<Rightarrow> Inl e
                  | Inr ok \<Rightarrow>
                      (let vars = vars\<lparr>seen := keyword # seen vars\<rparr>
                       in if keyword = ''HTTP'' then
                            (if value \<noteq> toUpperCase value
                             then Inl (Error ''HTTP method must be uppercase'')
                             else if value \<noteq> ''GET'' \<and> value \<noteq> ''POST''
                             then Inl (Error ''Invalid HTTP method. Only GET and POST are supported'')
                             else Inr (vars\<lparr>httpMethod := value\<rparr>))
                          else if keyword = ''URL'' then Inr (vars\<lparr>baseURL := value\<rparr>)
                          else if keyword = ''HEADERS'' then
                            (case parseJSONStrict value ''HEADERS'' of
                               Inl e \<Rightarrow> Inl e
                             | Inr v \<Rightarrow> Inr (vars\<lparr>headersVar := v\<rparr>))
                          else if keyword = ''QUERY'' then
                            (case parseJSONStrict value ''QUERY'' of
                               Inl e \<Rightarrow> Inl e
                             | Inr v \<Rightarrow> Inr (vars\<lparr>queryVar := v\<rparr>))
                          else if keyword = ''BODY'' then
                            (case parseJSONStrict value ''BODY'' of
                               Inl e \<Rightarrow> Inl e
                             | Inr v \<Rightarrow> Inr (vars\<lparr>bodyVar := v\<rparr>))
                          else Inr vars))))"

fun segmentLoop :: "locals \<Rightarrow> string list \<Rightarrow> error + locals" where
  "segmentLoop vars [] = Inr vars"
| "segmentLoop vars (segment # rest) =
     (case processSegment vars segment of
        Inl e \<Rightarrow> Inl e
      | Inr vars' \<Rightarrow> segmentLoop vars' rest)"

text \<open>\<^verbatim>\<open>!segments[i] || segments[i].slice(0, n) !== word\<close>.\<close>

definition lacksPrefix :: "string list \<Rightarrow> nat \<Rightarrow> string \<Rightarrow> bool" where
  "lacksPrefix segments i word =
     (if i < length segments
      then segments ! i = [] \<or> slice (segments ! i) 0 (length word) \<noteq> word
      else True)"

definition initialLocals :: locals where
  "initialLocals =
     \<lparr>seen = [], httpMethod = [], baseURL = [],
      headersVar = JObject [], queryVar = JObject [], bodyVar = JObject []\<rparr>"

text \<open>The body of \<^verbatim>\<open>parseReqline\<close> after it has called \<^verbatim>\<open>splitByPipes\<close>.\<close>

definition assemble :: "string list \<Rightarrow> error + descriptor" where
  "assemble segments =
     (if lacksPrefix segments 0 ''HTTP'' then Inl (Error ''Missing required HTTP keyword'')
      else if lacksPrefix segments 1 ''URL'' then Inl (Error ''Missing required URL keyword'')
      else
        (case segmentLoop initialLocals segments of
           Inl e \<Rightarrow> Inl e
         | Inr vars \<Rightarrow>
             (case constructFullURL (baseURL vars) (queryVar vars) of
                Inl e \<Rightarrow> Inl e
              | Inr fullURL \<Rightarrow>
                  Inr \<lparr>method' = httpMethod vars, url = baseURL vars,
                       headers = headersVar vars, query = queryVar vars,
                       body = bodyVar vars, full_url = fullURL\<rparr>)))"

definition parseReqline :: "string \<Rightarrow> error + descriptor" where
  "parseReqline statement =
     (case splitByPipes statement of
        Inl e \<Rightarrow> Inl e
      | Inr segments \<Rightarrow> assemble segments)"

section \<open>The handler\<close>

text \<open>
  The two collaborators of the handler are not in the repository: the framework that
  registers it and hands it the request, and the HTTP client. The client is a parameter of
  the handler, any function from a call to its outcome, and so are the two readings of the
  clock. The handler returns its response and the calls it made.
\<close>

text \<open>
  Modelled from the spec: the request context of the handler-registration framework.
  \<open>rc_body\<close> is the decoded JSON body of the request, an object (the list of its
  properties), or \<open>None\<close> when the request has no body.
\<close>

record request =
  rc_body :: "(string \<times> jsval) list option"

record response =
  status :: nat
  data :: jsval

text \<open>
  Modelled from the spec: the interface of the HTTP client, \<^verbatim>\<open>get(url, options)\<close> and
  \<^verbatim>\<open>post(url, body, options)\<close>. A call resolves with a value, or is rejected with an error
  object, given by its properties (\<^verbatim>\<open>message\<close>, \<^verbatim>\<open>context\<close>).
\<close>

datatype http_call =
    HttpGet string jsval
  | HttpPost string jsval jsval

datatype outcome =
    Resolved jsval
  | Rejected "(string \<times> jsval) list"

text \<open>\<^verbatim>\<open>a || b\<close> on values.\<close>

definition orElse :: "jsval \<Rightarrow> jsval \<Rightarrow> jsval" where
  "orElse a b = (if truthy a then a else b)"

text \<open>The inner \<^verbatim>\<open>catch\<close>: the status and the data it leaves for an error object \<open>e\<close>.\<close>

definition caught :: "(string \<times> jsval) list \<Rightarrow> jsval \<times> jsval" where
  "caught e =
     (let ctx =
            (if truthy (lookup e ''context'')
                \<and> truthy (getProp (lookup e ''context'') ''response'')
             then getProp (lookup e ''context'') ''response''
             else JObject [])
      in (orElse (getProp ctx ''statusCode'') (JNumber 0 0),
          orElse (getProp ctx ''data'')
            (JObject [(''error'', JBool True), (''message'', lookup e ''message'')])))"

text \<open>
  The inner \<^verbatim>\<open>try\<close> around one call. Reading \<^verbatim>\<open>res.statusCode\<close> of a resolved value that
  is \<^verbatim>\<open>undefined\<close> or \<^verbatim>\<open>null\<close> raises a \<^verbatim>\<open>TypeError\<close>, which the same \<^verbatim>\<open>catch\<close> takes.
\<close>

definition exchange :: "(http_call \<Rightarrow> outcome) \<Rightarrow> http_call \<Rightarrow> jsval \<times> jsval" where
  "exchange client call =
     (case client call of
        Resolved res \<Rightarrow>
          (if res = JUndefined
           then caught [(''message'',
                  JString ''Cannot read properties of undefined (reading 'statusCode')'')]
           else if res = JNull
           then caught [(''message'',
                  JString ''Cannot read properties of null (reading 'statusCode')'')]
           else (getProp res ''statusCode'', getProp res ''data''))
      | Rejected e \<Rightarrow> caught e)"

definition failure :: "string \<Rightarrow> response" where
  "failure msg =
     \<lparr>status = 400, data = JObject [(''error'', JBool True), (''message'', JString msg)]\<rparr>"

definition handler ::
  "(http_call \<Rightarrow> outcome) \<Rightarrow> int \<Rightarrow> int \<Rightarrow> request \<Rightarrow> response \<times> http_call list" where
  "handler client requestStart requestStop rc =
     (let reqline =
            (case rc_body rc of None \<Rightarrow> JUndefined | Some props \<Rightarrow> lookup props ''reqline'')
      in case reqline of
           JString statement \<Rightarrow>
             (case parseReqline statement of
                Inl error \<Rightarrow>
                  (failure (if message error \<noteq> [] then message error
                            else ''Some error occured. Please check your reqline statement''),
                   [])
              | Inr parsed \<Rightarrow>
                  (let calls =
                         (if method' parsed = ''GET''
                          then [HttpGet (full_url parsed)
                                  (JObject [(''headers'', headers parsed)])]
                          else if method' parsed = ''POST''
                          then [HttpPost (full_url parsed) (body parsed)
                                  (JObject [(''headers'', headers parsed)])]
                          else []);
                       (httpStatus, responseData) =
                         (case calls of
                            [] \<Rightarrow> (JNumber 0 0, JNull)
                          | call # others \<Rightarrow> exchange client call);
                       duration = requestStop - requestStart
                   in (\<lparr>status = 200,
                        data = JObject
                          [(''request'', JObject
                              [(''query'', orElse (query parsed) (JObject [])),
                               (''body'', orElse (body parsed) (JObject [])),
                               (''headers'', orElse (headers parsed) (JObject [])),
                               (''full_url'', JString (full_url parsed))]),
                           (''response'', JObject
                              [(''http_status'', httpStatus),
                               (''duration'', JNumber duration 0),
                               (''request_start_timestamp'', JNumber requestStart 0),
                               (''request_stop_timestamp'', JNumber requestStop 0),
                               (''response_data'', responseData)])]\<rparr>,
                       calls)))
         | _ \<Rightarrow> (failure ''Invalid reqline input'', []))"

section \<open>The words of the specification\<close>

text \<open>
  The keyword of a segment is the text before its first space, its value the text after
  that space. \<open>sectionText k segments\<close> is the value of the first segment with the keyword
  \<open>k\<close>, or \<open>None\<close> when the statement has no such section. \<open>decodedSection k segments\<close> is
  what a JSON-bearing section stands for: the empty mapping when the section is absent,
  else what its text decodes to. \<open>isObject\<close> holds of the mappings among the values.
\<close>

definition keywordOf :: "string \<Rightarrow> string" where
  "keywordOf segment = takeWhile (\<lambda>c. c \<noteq> CHR '' '') segment"

definition valueOf :: "string \<Rightarrow> string" where
  "valueOf segment = drop 1 (dropWhile (\<lambda>c. c \<noteq> CHR '' '') segment)"

definition sectionText :: "string \<Rightarrow> string list \<Rightarrow> string option" where
  "sectionText k segments = map_option valueOf (find (\<lambda>segment. keywordOf segment = k) segments)"

definition decodedSection :: "string \<Rightarrow> string list \<Rightarrow> jsval option" where
  "decodedSection k segments =
     (case sectionText k segments of
        None \<Rightarrow> Some (JObject [])
      | Some text \<Rightarrow> JSON_parse text)"

fun isObject :: "jsval \<Rightarrow> bool" where
  "isObject (JObject props) = True"
| "isObject v = False"



text \<open>
  A request in the words of the specification. \<open>reqlineString rc\<close> is the statement of
  the request: \<open>None\<close> when the body is missing, has no field \<^verbatim>\<open>reqline\<close>, or has one that
  is not a string. A request is rejected when it has no statement (the check before the
  parse) or its statement does not parse; \<open>reason rc\<close> is the message of the rejection.
\<close>

definition reqlineString :: "request \<Rightarrow> string option" where
  "reqlineString rc =
     (case rc_body rc of
        None \<Rightarrow> None
      | Some props \<Rightarrow>
          (case map_of props ''reqline'' of
             Some (JString statement) \<Rightarrow> Some statement
           | _ \<Rightarrow> None))"



section \<open>The invariants of the two loops\<close>

text \<open>
  The loop over the segments: after the segments \<open>past\<close>, the keywords seen are theirs,
  and each variable holds what its section in \<open>past\<close> says, or its initial value when
  \<open>past\<close> has no such section.
\<close>

definition tracks :: "locals \<Rightarrow> string list \<Rightarrow> bool" where
  "tracks vars past =
     (set (seen vars) = keywordOf ` set past
      \<and> sectionText ''HTTP'' past = (if httpMethod vars = [] then None else Some (httpMethod vars))
      \<and> (httpMethod vars = [] \<or> httpMethod vars = ''GET'' \<or> httpMethod vars = ''POST'')
      \<and> sectionText ''URL'' past = (if baseURL vars = [] then None else Some (baseURL vars))
      \<and> Some (headersVar vars) = decodedSection ''HEADERS'' past
      \<and> Some (queryVar vars) = decodedSection ''QUERY'' past
      \<and> Some (bodyVar vars) = decodedSection ''BODY'' past)"

text \<open>
  The scan of the segmenter, at the index \<open>i\<close> with the current segment starting at \<open>t\<close>:
  no delimiter stands between the two, or the index is right behind a delimiter.
\<close>

definition scanned :: "string \<Rightarrow> nat \<Rightarrow> nat \<Rightarrow> bool" where
  "scanned s t i =
     ((t \<le> i \<and> (\<forall>j. t \<le> j \<and> j < i \<longrightarrow> s ! j \<noteq> CHR ''|''))
      \<or> (t = i + 1 \<and> 1 \<le> i \<and> s ! (i - 1) = CHR ''|''))"

section \<open>Facts about the string operations\<close>

lemma find_upt_Some:
  "i < n \<Longrightarrow> P i \<Longrightarrow> (\<And>j. j < i \<Longrightarrow> \<not> P j) \<Longrightarrow> find P [0 ..< n] = Some i"
  by (auto simp: find_Some_iff intro!: exI [of _ i])

lemma find_upt_None: "(\<And>j. j < n \<Longrightarrow> \<not> P j) \<Longrightarrow> find P [0 ..< n] = None"
  by (auto simp: find_None_iff)

lemma indexOf_first:
  assumes "i \<le> length s" "take (length p) (drop i s) = p"
    and "\<And>j. j < i \<Longrightarrow> take (length p) (drop j s) \<noteq> p"
  shows "indexOf s p = int i"
  unfolding indexOf_def using assms
  by (subst find_upt_Some [where i = i]) auto

lemma indexOf_prefix: "indexOf (k @ rest) k = 0"
  using indexOf_first [of 0 "k @ rest" k] by simp

lemma indexOf_char_absent: "c \<notin> set s \<Longrightarrow> indexOf s [c] = - 1"
proof -
  assume a: "c \<notin> set s"
  have "find (\<lambda>i. take (length [c]) (drop i s) = [c]) [0 ..< Suc (length s)] = None"
  proof (rule find_upt_None)
    fix j assume "j < Suc (length s)"
    show "take (length [c]) (drop j s) \<noteq> [c]"
    proof
      assume "take (length [c]) (drop j s) = [c]"
      then have "c \<in> set (take (length [c]) (drop j s))" by simp
      then have "c \<in> set s" by (meson in_set_dropD in_set_takeD)
      with a show False by simp
    qed
  qed
  then show ?thesis by (simp add: indexOf_def)
qed

lemma indexOf_char_first: "c \<notin> set k \<Longrightarrow> indexOf (k @ c # v) [c] = int (length k)"
proof (rule indexOf_first)
  show "length k \<le> length (k @ c # v)" by simp
  show "take (length [c]) (drop (length k) (k @ c # v)) = [c]" by simp
next
  fix j assume c: "c \<notin> set k" and j: "j < length k"
  then have "drop j (k @ c # v) = (k ! j) # drop (Suc j) (k @ c # v)"
    by (simp add: Cons_nth_drop_Suc nth_append)
  moreover have "k ! j \<noteq> c" using c j by (metis nth_mem)
  ultimately show "take (length [c]) (drop j (k @ c # v)) \<noteq> [c]" by simp
qed


lemma arrayIndexOf_absent: "arrayIndexOf xs x = - 1 \<longleftrightarrow> x \<notin> set xs"
proof (cases "find (\<lambda>i. xs ! i = x) [0 ..< length xs]")
  case None
  then have "\<forall>i < length xs. xs ! i \<noteq> x" by (auto simp: find_None_iff)
  then have "x \<notin> set xs" by (auto simp: in_set_conv_nth)
  with None show ?thesis by (simp add: arrayIndexOf_def)
next
  case (Some i)
  then have "i < length xs \<and> xs ! i = x" by (auto simp: find_Some_iff)
  then have "x \<in> set xs" by auto
  with Some show ?thesis by (simp add: arrayIndexOf_def)
qed

section \<open>One segment\<close>

lemma toUpperCase_allowed: "k \<in> set allowedKeywords \<Longrightarrow> toUpperCase k = k"
  by (auto simp: allowedKeywords_def toUpperCase_def toUpperChar_def)

lemma ensureSingleSpaceAfterKeyword_eq:
  "ensureSingleSpaceAfterKeyword (k @ CHR '' '' # v) k =
     (if v = [] then Inl (Error ''Missing space after keyword'')
      else if hd v = CHR '' '' then Inl (Error ''Multiple spaces found where single space expected'')
      else Inr True)"
  by (cases v) (auto simp: ensureSingleSpaceAfterKeyword_def indexOf_prefix slice_def charAt_def nth_append)

lemma processSegment_no_space:
  "CHR '' '' \<notin> set segment \<Longrightarrow> processSegment vars segment = Inl (Error ''Missing space after keyword'')"
  by (simp add: processSegment_def indexOf_char_absent)

lemma processSegment_eq:
  assumes "CHR '' '' \<notin> set k"
  shows "processSegment vars (k @ CHR '' '' # v) =
     (if k \<noteq> toUpperCase k \<or> k \<notin> set allowedKeywords then Inl (Error ''Keywords must be uppercase'')
      else if k \<in> set (seen vars) then Inl (Error (''Duplicate section '' @ k))
      else if v = [] then Inl (Error ''Missing space after keyword'')
      else if hd v = CHR '' '' then Inl (Error ''Multiple spaces found where single space expected'')
      else if k = ''HTTP'' then
        (if v \<noteq> toUpperCase v then Inl (Error ''HTTP method must be uppercase'')
         else if v \<noteq> ''GET'' \<and> v \<noteq> ''POST''
         then Inl (Error ''Invalid HTTP method. Only GET and POST are supported'')
         else Inr (vars\<lparr>seen := k # seen vars, httpMethod := v\<rparr>))
      else if k = ''URL'' then Inr (vars\<lparr>seen := k # seen vars, baseURL := v\<rparr>)
      else if k = ''HEADERS'' then
        (case JSON_parse v of
           None \<Rightarrow> Inl (Error ''Invalid JSON format in HEADERS section'')
         | Some j \<Rightarrow> Inr (vars\<lparr>seen := k # seen vars, headersVar := j\<rparr>))
      else if k = ''QUERY'' then
        (case JSON_parse v of
           None \<Rightarrow> Inl (Error ''Invalid JSON format in QUERY section'')
         | Some j \<Rightarrow> Inr (vars\<lparr>seen := k # seen vars, queryVar := j\<rparr>))
      else
        (case JSON_parse v of
           None \<Rightarrow> Inl (Error ''Invalid JSON format in BODY section'')
         | Some j \<Rightarrow> Inr (vars\<lparr>seen := k # seen vars, bodyVar := j\<rparr>)))"
proof -
  have i: "indexOf (k @ CHR '' '' # v) '' '' = int (length k)"
    using assms by (rule indexOf_char_first)
  have k: "slice (k @ CHR '' '' # v) 0 (length k) = k" by (simp add: slice_def)
  have v: "sliceFrom (k @ CHR '' '' # v) (Suc (length k)) = v" by (simp add: sliceFrom_def)
  have n: "nat (int (length k) + 1) = Suc (length k)" by simp
  have b: "k \<in> set allowedKeywords \<Longrightarrow> k \<noteq> ''HTTP'' \<Longrightarrow> k \<noteq> ''URL'' \<Longrightarrow>
           k \<noteq> ''HEADERS'' \<Longrightarrow> k \<noteq> ''QUERY'' \<Longrightarrow> k = ''BODY''"
    by (simp add: allowedKeywords_def)
  show ?thesis
    unfolding processSegment_def Let_def i k v n nat_int arrayIndexOf_absent
      ensureSingleSpaceAfterKeyword_eq parseJSONStrict_def
    using b by (auto split: option.splits)
qed

lemma segment_split:
  "CHR '' '' \<in> set segment \<Longrightarrow> segment = keywordOf segment @ CHR '' '' # valueOf segment"
proof -
  assume a: "CHR '' '' \<in> set segment"
  let ?d = "dropWhile (\<lambda>c. c \<noteq> CHR '' '') segment"
  from a have "?d \<noteq> []" by (simp add: dropWhile_eq_Nil_conv)
  moreover have "?d \<noteq> [] \<Longrightarrow> hd ?d = CHR '' ''" using hd_dropWhile [of "\<lambda>c. c \<noteq> CHR '' ''" segment] by simp
  ultimately have "?d = CHR '' '' # drop 1 ?d" by (cases ?d) auto
  then have "takeWhile (\<lambda>c. c \<noteq> CHR '' '') segment @ CHR '' '' # drop 1 ?d = segment"
    by (metis takeWhile_dropWhile_id)
  then show ?thesis by (simp add: keywordOf_def valueOf_def)
qed

lemma keywordOf_no_space: "CHR '' '' \<notin> set (keywordOf segment)"
  by (auto simp: keywordOf_def dest: set_takeWhileD)

lemma processSegment_Inr:
  assumes "processSegment vars segment = Inr vars'"
  shows "segment = keywordOf segment @ CHR '' '' # valueOf segment
     \<and> keywordOf segment \<in> set allowedKeywords
     \<and> keywordOf segment \<notin> set (seen vars)
     \<and> valueOf segment \<noteq> []
     \<and> hd (valueOf segment) \<noteq> CHR '' ''
     \<and> seen vars' = keywordOf segment # seen vars
     \<and> (if keywordOf segment = ''HTTP''
         then httpMethod vars' = valueOf segment \<and> (valueOf segment = ''GET'' \<or> valueOf segment = ''POST'')
         else httpMethod vars' = httpMethod vars)
     \<and> (if keywordOf segment = ''URL''
         then baseURL vars' = valueOf segment else baseURL vars' = baseURL vars)
     \<and> (if keywordOf segment = ''HEADERS''
         then JSON_parse (valueOf segment) = Some (headersVar vars')
         else headersVar vars' = headersVar vars)
     \<and> (if keywordOf segment = ''QUERY''
         then JSON_parse (valueOf segment) = Some (queryVar vars')
         else queryVar vars' = queryVar vars)
     \<and> (if keywordOf segment = ''BODY''
         then JSON_parse (valueOf segment) = Some (bodyVar vars')
         else bodyVar vars' = bodyVar vars)"
proof -
  have sp: "CHR '' '' \<in> set segment"
    using assms processSegment_no_space [of segment vars] by auto
  then have s: "segment = keywordOf segment @ CHR '' '' # valueOf segment" by (rule segment_split)
  have "processSegment vars (keywordOf segment @ CHR '' '' # valueOf segment) = Inr vars'"
    using assms s by simp
  then show ?thesis
    using s unfolding processSegment_eq [OF keywordOf_no_space]
    by (auto split: if_splits option.splits simp: allowedKeywords_def)
qed

lemma allowed_no_space: "k \<in> set allowedKeywords \<Longrightarrow> CHR '' '' \<notin> set k"
  by (auto simp: allowedKeywords_def)

text \<open>
  C7, as the code has it. In one round of the loop the checks come in this order: the
  search for the first space; the upper-case and known-keyword checks; the rejection of a
  keyword seen before; and only then the checks of \<^verbatim>\<open>ensureSingleSpaceAfterKeyword\<close>, for an
  empty value and for a second space. So a segment whose keyword repeats an earlier
  section fails with the duplicate-section error whatever its value is, also when the
  value begins with a further space; the multiple-spaces error is left to the segments
  whose keyword was not seen before.
\<close>

theorem segment_checks_in_order:
  "(CHR '' '' \<notin> set segment \<longrightarrow>
      processSegment vars segment = Inl (Error ''Missing space after keyword''))
   \<and> (CHR '' '' \<notin> set keyword \<and> keyword \<notin> set allowedKeywords \<longrightarrow>
      processSegment vars (keyword @ CHR '' '' # value) = Inl (Error ''Keywords must be uppercase''))
   \<and> (keyword \<in> set allowedKeywords \<and> keyword \<in> set (seen vars) \<longrightarrow>
      processSegment vars (keyword @ CHR '' '' # value) =
        Inl (Error (''Duplicate section '' @ keyword)))
   \<and> (keyword \<in> set allowedKeywords \<and> keyword \<notin> set (seen vars) \<and> value = [] \<longrightarrow>
      processSegment vars (keyword @ CHR '' '' # value) = Inl (Error ''Missing space after keyword''))
   \<and> (keyword \<in> set allowedKeywords \<and> keyword \<notin> set (seen vars) \<and> value \<noteq> []
        \<and> hd value = CHR '' '' \<longrightarrow>
      processSegment vars (keyword @ CHR '' '' # value) =
        Inl (Error ''Multiple spaces found where single space expected''))"
proof -
  note e = processSegment_eq [OF allowed_no_space, of keyword vars "value"]
  have a: "CHR '' '' \<notin> set segment \<Longrightarrow>
      processSegment vars segment = Inl (Error ''Missing space after keyword'')"
    by (rule processSegment_no_space)
  have b: "CHR '' '' \<notin> set keyword \<Longrightarrow> keyword \<notin> set allowedKeywords \<Longrightarrow>
      processSegment vars (keyword @ CHR '' '' # value) = Inl (Error ''Keywords must be uppercase'')"
    by (simp add: processSegment_eq)
  have c: "keyword \<in> set allowedKeywords \<Longrightarrow> keyword \<in> set (seen vars) \<Longrightarrow>
      processSegment vars (keyword @ CHR '' '' # value) =
        Inl (Error (''Duplicate section '' @ keyword))"
    using e by (simp add: toUpperCase_allowed)
  have d: "keyword \<in> set allowedKeywords \<Longrightarrow> keyword \<notin> set (seen vars) \<Longrightarrow> value = [] \<Longrightarrow>
      processSegment vars (keyword @ CHR '' '' # value) = Inl (Error ''Missing space after keyword'')"
    using e by (simp add: toUpperCase_allowed)
  have f: "keyword \<in> set allowedKeywords \<Longrightarrow> keyword \<notin> set (seen vars) \<Longrightarrow> value \<noteq> [] \<Longrightarrow>
      hd value = CHR '' '' \<Longrightarrow>
      processSegment vars (keyword @ CHR '' '' # value) =
        Inl (Error ''Multiple spaces found where single space expected'')"
    using e by (simp add: toUpperCase_allowed)
  show ?thesis using a b c d f by blast
qed

theorem segment_checks_in_order_witness:
  "CHR '' '' \<notin> set ''HTTPGET''
   \<and> processSegment (initialLocals\<lparr>seen := [''URL'', ''HTTP'']\<rparr>) ''HTTPGET'' =
       Inl (Error ''Missing space after keyword'')
   \<and> CHR '' '' \<notin> set ''http'' \<and> ''http'' \<notin> set allowedKeywords
   \<and> processSegment (initialLocals\<lparr>seen := [''URL'', ''HTTP'']\<rparr>) ''http  POST'' =
       Inl (Error ''Keywords must be uppercase'')
   \<and> ''HTTP'' \<in> set allowedKeywords
   \<and> ''HTTP'' \<in> set (seen (initialLocals\<lparr>seen := [''URL'', ''HTTP'']\<rparr>))
   \<and> processSegment (initialLocals\<lparr>seen := [''URL'', ''HTTP'']\<rparr>) ''HTTP  POST'' =
       Inl (Error ''Duplicate section HTTP'')
   \<and> ''BODY'' \<in> set allowedKeywords
   \<and> ''BODY'' \<notin> set (seen (initialLocals\<lparr>seen := [''URL'', ''HTTP'']\<rparr>))
   \<and> processSegment (initialLocals\<lparr>seen := [''URL'', ''HTTP'']\<rparr>) ''BODY '' =
       Inl (Error ''Missing space after keyword'')
   \<and> processSegment (initialLocals\<lparr>seen := [''URL'', ''HTTP'']\<rparr>) ''BODY  {}'' =
       Inl (Error ''Multiple spaces found where single space expected'')"
  using segment_checks_in_order
      [of "''HTTPGET''" "initialLocals\<lparr>seen := [''URL'', ''HTTP'']\<rparr>" "''http''" "'' POST''"]
    segment_checks_in_order
      [of "''HTTPGET''" "initialLocals\<lparr>seen := [''URL'', ''HTTP'']\<rparr>" "''HTTP''" "'' POST''"]
    segment_checks_in_order
      [of "''HTTPGET''" "initialLocals\<lparr>seen := [''URL'', ''HTTP'']\<rparr>" "''BODY''" "[]"]
    segment_checks_in_order
      [of "''HTTPGET''" "initialLocals\<lparr>seen := [''URL'', ''HTTP'']\<rparr>" "''BODY''" "'' {}''"]
  by (simp add: allowedKeywords_def)

text \<open>
  The third segment repeats HTTP and has two spaces after the keyword: the statement fails
  with the duplicate-section error, not with the multiple-spaces error.
\<close>

theorem duplicate_with_extra_space_counterexample:
  "parseReqline ''HTTP GET | URL http://x | HTTP  POST'' = Inl (Error ''Duplicate section HTTP'')
   \<and> Error ''Duplicate section HTTP'' \<noteq> Error ''Multiple spaces found where single space expected''"
  by code_simp

section \<open>The loop over the segments\<close>

lemma find_append_case:
  "find P (xs @ ys) = (case find P xs of None \<Rightarrow> find P ys | Some x \<Rightarrow> Some x)"
  by (induction xs) auto

lemma sectionText_None: "sectionText k past = None \<longleftrightarrow> k \<notin> keywordOf ` set past"
  by (auto simp: sectionText_def find_None_iff)

lemma sectionText_snoc:
  "sectionText k (past @ [segment]) =
     (if k \<in> keywordOf ` set past then sectionText k past
      else if keywordOf segment = k then Some (valueOf segment)
      else None)"
proof (cases "find (\<lambda>s. keywordOf s = k) past")
  case None
  then have "k \<notin> keywordOf ` set past" by (auto simp: find_None_iff)
  with None show ?thesis by (simp add: sectionText_def find_append_case)
next
  case (Some x)
  then have "k \<in> keywordOf ` set past" by (auto simp: find_Some_iff)
  with Some show ?thesis by (simp add: sectionText_def find_append_case)
qed

lemma tracks_initial: "tracks initialLocals []"
  by (simp add: tracks_def initialLocals_def decodedSection_def sectionText_def)

lemma tracks_step:
  assumes "processSegment vars segment = Inr vars'" and "tracks vars past"
  shows "tracks vars' (past @ [segment])"
proof -
  note p = processSegment_Inr [OF assms(1)]
  from p have k: "keywordOf segment \<notin> keywordOf ` set past"
    using assms(2) by (simp add: tracks_def)
  have n: "\<And>k. k \<notin> keywordOf ` set past \<Longrightarrow> sectionText k past = None"
    by (simp add: sectionText_None)
  have s: "set (seen vars') = keywordOf ` set (past @ [segment])"
    using p assms(2) by (auto simp: tracks_def)
  have m: "sectionText ''HTTP'' (past @ [segment]) =
             (if httpMethod vars' = [] then None else Some (httpMethod vars'))
           \<and> (httpMethod vars' = [] \<or> httpMethod vars' = ''GET'' \<or> httpMethod vars' = ''POST'')"
    using p k assms(2) n [of "''HTTP''"] sectionText_None [of "''HTTP''" past]
    by (auto simp: tracks_def sectionText_snoc split: if_splits)
  have u: "sectionText ''URL'' (past @ [segment]) =
             (if baseURL vars' = [] then None else Some (baseURL vars'))"
    using p k assms(2) n [of "''URL''"] sectionText_None [of "''URL''" past]
    by (auto simp: tracks_def sectionText_snoc split: if_splits)
  have h: "Some (headersVar vars') = decodedSection ''HEADERS'' (past @ [segment])"
    using p k assms(2) n [of "''HEADERS''"]
    by (auto simp: tracks_def decodedSection_def sectionText_snoc split: if_splits)
  have q: "Some (queryVar vars') = decodedSection ''QUERY'' (past @ [segment])"
    using p k assms(2) n [of "''QUERY''"]
    by (auto simp: tracks_def decodedSection_def sectionText_snoc split: if_splits)
  have b: "Some (bodyVar vars') = decodedSection ''BODY'' (past @ [segment])"
    using p k assms(2) n [of "''BODY''"]
    by (auto simp: tracks_def decodedSection_def sectionText_snoc split: if_splits)
  show ?thesis using s m u h q b by (simp add: tracks_def)
qed

lemma tracks_loop:
  "segmentLoop vars segments = Inr vars' \<Longrightarrow> tracks vars past \<Longrightarrow> tracks vars' (past @ segments)"
proof (induction segments arbitrary: vars past)
  case Nil
  then show ?case by simp
next
  case (Cons segment rest)
  from Cons.prems(1) obtain mid where m: "processSegment vars segment = Inr mid"
    and r: "segmentLoop mid rest = Inr vars'"
    by (auto split: sum.splits)
  have "tracks mid (past @ [segment])" using m Cons.prems(2) by (rule tracks_step)
  from Cons.IH [OF r this] show ?case by simp
qed

lemma segmentLoop_keywords:
  "segmentLoop vars segments = Inr vars' \<Longrightarrow> segment \<in> set segments \<Longrightarrow>
     keywordOf segment \<in> set allowedKeywords"
proof (induction segments arbitrary: vars)
  case Nil
  then show ?case by simp
next
  case (Cons first rest)
  from Cons.prems(1) obtain mid where m: "processSegment vars first = Inr mid"
    and r: "segmentLoop mid rest = Inr vars'"
    by (auto split: sum.splits)
  show ?case
  proof (cases "segment = first")
    case True
    then show ?thesis using processSegment_Inr [OF m] by simp
  next
    case False
    then have "segment \<in> set rest" using Cons.prems(2) by simp
    then show ?thesis using Cons.IH [OF r] by simp
  qed
qed

lemma slice_prefixD: "slice segment 0 (length w) = w \<Longrightarrow> \<exists>r. segment = w @ r"
  by (metis append_take_drop_id diff_zero drop0 slice_def)

lemma keyword_with_prefix:
  assumes "keywordOf segment \<in> set allowedKeywords"
  shows "slice segment 0 (length ''HTTP'') = ''HTTP'' \<Longrightarrow> keywordOf segment = ''HTTP''"
    and "slice segment 0 (length ''URL'') = ''URL'' \<Longrightarrow> keywordOf segment = ''URL''"
proof -
  assume "slice segment 0 (length ''HTTP'') = ''HTTP''"
  then obtain r where "segment = ''HTTP'' @ r" using slice_prefixD by blast
  then show "keywordOf segment = ''HTTP''"
    using assms by (auto simp: keywordOf_def allowedKeywords_def)
next
  assume "slice segment 0 (length ''URL'') = ''URL''"
  then obtain r where "segment = ''URL'' @ r" using slice_prefixD by blast
  then show "keywordOf segment = ''URL''"
    using assms by (auto simp: keywordOf_def allowedKeywords_def)
qed

lemma assemble_Inr:
  assumes "assemble segments = Inr d"
  shows "\<exists>vars. segmentLoop initialLocals segments = Inr vars \<and> tracks vars segments
           \<and> ''HTTP'' \<in> keywordOf ` set segments \<and> ''URL'' \<in> keywordOf ` set segments
           \<and> method' d = httpMethod vars \<and> url d = baseURL vars
           \<and> headers d = headersVar vars \<and> query d = queryVar vars \<and> body d = bodyVar vars
           \<and> constructFullURL (baseURL vars) (queryVar vars) = Inr (full_url d)"
proof -
  from assms have a: "\<not> lacksPrefix segments 0 ''HTTP''" and b: "\<not> lacksPrefix segments 1 ''URL''"
    by (auto simp: assemble_def split: if_splits)
  from assms a b obtain vars where v: "segmentLoop initialLocals segments = Inr vars"
    by (auto simp: assemble_def split: sum.splits)
  from assms a b v obtain fullURL where f: "constructFullURL (baseURL vars) (queryVar vars) = Inr fullURL"
    by (auto simp: assemble_def split: sum.splits)
  from assms a b v f have d: "d = \<lparr>method' = httpMethod vars, url = baseURL vars,
      headers = headersVar vars, query = queryVar vars, body = bodyVar vars, full_url = fullURL\<rparr>"
    by (simp add: assemble_def)
  have t: "tracks vars segments" using tracks_loop [OF v tracks_initial] by simp
  from a have a0: "0 < length segments" "slice (segments ! 0) 0 (length ''HTTP'') = ''HTTP''"
    unfolding lacksPrefix_def by (auto split: if_splits)
  from b have b0: "1 < length segments" "slice (segments ! 1) 0 (length ''URL'') = ''URL''"
    unfolding lacksPrefix_def by (auto split: if_splits)
  have "keywordOf (segments ! 0) = ''HTTP''"
    using keyword_with_prefix(1) [OF segmentLoop_keywords [OF v]] a0 by simp
  then have h: "''HTTP'' \<in> keywordOf ` set segments" using a0(1) by (metis imageI nth_mem)
  have "keywordOf (segments ! 1) = ''URL''"
    using keyword_with_prefix(2) [OF segmentLoop_keywords [OF v]] b0 by simp
  then have u: "''URL'' \<in> keywordOf ` set segments" using b0(1) by (metis imageI nth_mem)
  show ?thesis using v t h u d f by simp
qed

text \<open>
  C8. Every successful parse yields a descriptor whose method is GET or POST and whose url
  is not empty; the method is the value of the statement's HTTP section and the url the
  value of its URL section, as they stand in the statement.
\<close>

theorem parse_method_and_url:
  assumes "parseReqline statement = Inr d"
  shows "(method' d = ''GET'' \<or> method' d = ''POST'') \<and> url d \<noteq> []
    \<and> (\<exists>segments. splitByPipes statement = Inr segments
          \<and> sectionText ''HTTP'' segments = Some (method' d)
          \<and> sectionText ''URL'' segments = Some (url d))"
proof -
  from assms obtain segments where s: "splitByPipes statement = Inr segments"
    and a: "assemble segments = Inr d"
    by (auto simp: parseReqline_def split: sum.splits)
  from assemble_Inr [OF a] obtain vars where t: "tracks vars segments"
    and h: "''HTTP'' \<in> keywordOf ` set segments" and u: "''URL'' \<in> keywordOf ` set segments"
    and m: "method' d = httpMethod vars" "url d = baseURL vars"
    by auto
  from h u have "sectionText ''HTTP'' segments \<noteq> None" "sectionText ''URL'' segments \<noteq> None"
    by (simp_all add: sectionText_None)
  with t m s show ?thesis by (auto simp: tracks_def split: if_splits)
qed

theorem parse_method_and_url_witness:
  "parseReqline ''HTTP POST | URL http://x | BODY {}'' =
     Inr \<lparr>method' = ''POST'', url = ''http://x'', headers = JObject [], query = JObject [],
          body = JObject [], full_url = ''http://x''\<rparr>
   \<and> (\<exists>segments. splitByPipes ''HTTP POST | URL http://x | BODY {}'' = Inr segments
          \<and> sectionText ''HTTP'' segments = Some ''POST''
          \<and> sectionText ''URL'' segments = Some ''http://x'')"
proof -
  have p: "parseReqline ''HTTP POST | URL http://x | BODY {}'' =
     Inr \<lparr>method' = ''POST'', url = ''http://x'', headers = JObject [], query = JObject [],
          body = JObject [], full_url = ''http://x''\<rparr>"
    by code_simp
  from parse_method_and_url [OF p] show ?thesis using p by simp
qed

text \<open>
  C4, as the code has it. In every descriptor returned by a successful parse, headers,
  query and body are each the value the text of its section decodes to, whatever JSON
  value that is: a mapping when the text is a JSON object, and as well \<^verbatim>\<open>null\<close>, a number,
  a string or an array. Each is the empty mapping when the statement has no such section.
\<close>

theorem parse_sections:
  assumes "parseReqline statement = Inr d"
  shows "\<exists>segments. splitByPipes statement = Inr segments
          \<and> Some (headers d) = decodedSection ''HEADERS'' segments
          \<and> Some (query d) = decodedSection ''QUERY'' segments
          \<and> Some (body d) = decodedSection ''BODY'' segments
          \<and> (sectionText ''HEADERS'' segments = None \<longrightarrow> headers d = JObject [])
          \<and> (sectionText ''QUERY'' segments = None \<longrightarrow> query d = JObject [])
          \<and> (sectionText ''BODY'' segments = None \<longrightarrow> body d = JObject [])"
proof -
  from assms obtain segments where s: "splitByPipes statement = Inr segments"
    and a: "assemble segments = Inr d"
    by (auto simp: parseReqline_def split: sum.splits)
  from assemble_Inr [OF a] s show ?thesis by (auto simp: tracks_def decodedSection_def)
qed

theorem parse_sections_witness:
  "parseReqline ''HTTP GET | URL http://x | QUERY {\"a\":\"1\"}'' =
     Inr \<lparr>method' = ''GET'', url = ''http://x'', headers = JObject [],
          query = JObject [(''a'', JString ''1'')], body = JObject [],
          full_url = ''http://x?a=1''\<rparr>
   \<and> (\<exists>segments. splitByPipes ''HTTP GET | URL http://x | QUERY {\"a\":\"1\"}'' = Inr segments
          \<and> sectionText ''HEADERS'' segments = None
          \<and> decodedSection ''QUERY'' segments = Some (JObject [(''a'', JString ''1'')])
          \<and> sectionText ''BODY'' segments = None)"
proof -
  have p: "parseReqline ''HTTP GET | URL http://x | QUERY {\"a\":\"1\"}'' =
     Inr \<lparr>method' = ''GET'', url = ''http://x'', headers = JObject [],
          query = JObject [(''a'', JString ''1'')], body = JObject [],
          full_url = ''http://x?a=1''\<rparr>"
    by code_simp
  have s: "splitByPipes ''HTTP GET | URL http://x | QUERY {\"a\":\"1\"}'' =
     Inr [''HTTP GET'', ''URL http://x'', ''QUERY {\"a\":\"1\"}'']"
    by code_simp
  have n: "sectionText ''HEADERS'' [''HTTP GET'', ''URL http://x'', ''QUERY {\"a\":\"1\"}''] = None"
    "sectionText ''BODY'' [''HTTP GET'', ''URL http://x'', ''QUERY {\"a\":\"1\"}''] = None"
    by (simp_all add: sectionText_def keywordOf_def)
  from parse_sections [OF p] show ?thesis using p s n by simp
qed

text \<open>
  The HEADERS section \<^verbatim>\<open>null\<close> is accepted, and the headers of the descriptor are \<^verbatim>\<open>null\<close>,
  not a mapping.
\<close>

theorem headers_not_a_mapping_counterexample:
  "parseReqline ''HTTP GET | URL http://x | HEADERS null'' =
     Inr \<lparr>method' = ''GET'', url = ''http://x'', headers = JNull, query = JObject [],
          body = JObject [], full_url = ''http://x''\<rparr>
   \<and> \<not> isObject JNull"
  by code_simp

section \<open>The scan on a statement of two segments\<close>

lemma splitLoop_done:
  "length statement \<le> i \<Longrightarrow> splitLoop statement i t segments = Inr (t, segments)"
  by (simp add: splitLoop.simps)

lemma splitLoop_other:
  "i < length statement \<Longrightarrow> statement ! i \<noteq> CHR ''|'' \<Longrightarrow>
     splitLoop statement i t segments = splitLoop statement (Suc i) t segments"
  by (subst splitLoop.simps) simp

lemma splitLoop_skip:
  "CHR ''|'' \<notin> set m \<Longrightarrow>
     splitLoop (a @ m @ b) (length a) t segments =
     splitLoop (a @ m @ b) (length a + length m) t segments"
proof (induction m arbitrary: a)
  case Nil
  then show ?case by simp
next
  case (Cons c m)
  have "splitLoop (a @ (c # m) @ b) (length a) t segments =
        splitLoop (a @ (c # m) @ b) (Suc (length a)) t segments"
    using Cons.prems by (intro splitLoop_other) auto
  also have "\<dots> = splitLoop ((a @ [c]) @ m @ b) (length (a @ [c])) t segments" by simp
  also have "\<dots> = splitLoop ((a @ [c]) @ m @ b) (length (a @ [c]) + length m) t segments"
    using Cons.prems by (intro Cons.IH) simp
  finally show ?case by simp
qed

lemma clamp_int: "clamp s (int n) = min n (length s)"
  by (simp add: clamp_def)

lemma charAt_int: "charAt s (int n) = (if n < length s then Some (s ! n) else None)"
  by (simp add: charAt_def)

lemma splitLoop_delimiter:
  assumes "a \<noteq> []" "last a \<noteq> CHR '' ''" "b \<noteq> []" "hd b \<noteq> CHR '' ''" "t \<le> length p"
  shows "splitLoop (p @ a @ '' | '' @ b) (length p + length a + 1) (int t) segments =
         splitLoop (p @ a @ '' | '' @ b) (length p + length a + 2) (int (length p + length a + 3))
           (segments @ [drop t (p @ a)])"
proof -
  let ?s = "p @ a @ '' | '' @ b"
  let ?n = "length p + length a"
  have i: "?s ! (?n + 1) = CHR ''|''" by (simp add: nth_append)
  have e1: "int (?n + 1) - 1 = int ?n" "int (?n + 1) + 1 = int (?n + 2)"
    "int (?n + 1) + 2 = int (?n + 3)" "int (?n + 1) - 2 = int (?n - 1)"
    using assms(1) by (simp_all add: Suc_leI of_nat_diff)
  have b1: "charAt ?s (int ?n) = Some CHR '' ''"
    using charAt_int [of ?s ?n] by (simp add: nth_append)
  have a1: "charAt ?s (int (?n + 2)) = Some CHR '' ''"
    using charAt_int [of ?s "?n + 2"] by (simp add: nth_append)
  have "?s = (p @ butlast a) @ last a # '' | '' @ b" using assms(1) by simp
  moreover have "length (p @ butlast a) = ?n - 1" using assms(1) by (cases a) simp_all
  ultimately have "?s ! (?n - 1) = last a" by (metis nth_append_length)
  then have b2: "charAt ?s (int (?n - 1)) \<noteq> Some CHR '' ''"
    using assms(1,2) charAt_int [of ?s "?n - 1"] by simp
  have "?s ! (?n + 3) = hd b"
    using assms(3) by (simp add: nth_append hd_conv_nth)
  then have a2: "charAt ?s (int (?n + 3)) \<noteq> Some CHR '' ''"
    using assms(3,4) charAt_int [of ?s "?n + 3"] by simp
  define seg where "seg = drop t (p @ a)"
  have seg: "substring ?s (int t) (int ?n) = seg"
    using assms(5) unfolding substring_def clamp_int Let_def seg_def by (simp add: min_def max_def)
  have ne: "seg \<noteq> []" using assms(1,5) by (simp add: seg_def)
  have l: "?n + 1 < length ?s" "int (?n + 2) < int (length ?s)" by simp_all
  have "splitLoop ?s (?n + 1) (int t) segments =
        splitLoop ?s (?n + 2) (int (?n + 3)) (segments @ [seg])"
    apply (subst splitLoop.simps)
    unfolding Let_def e1
    using i b1 a1 b2 a2 seg ne l
    apply (simp del: of_nat_add)
    done
  then show ?thesis by (simp add: seg_def)
qed

lemma splitByPipes_two:
  assumes "CHR ''|'' \<notin> set a" "a \<noteq> []" "hd a \<noteq> CHR '' ''" "last a \<noteq> CHR '' ''"
    and "CHR ''|'' \<notin> set b" "b \<noteq> []" "hd b \<noteq> CHR '' ''" "last b \<noteq> CHR '' ''"
  shows "splitByPipes (a @ '' | '' @ b) = Inr [a, b]"
proof -
  let ?s = "a @ '' | '' @ b"
  have "splitLoop ?s 0 0 [] = splitLoop ([] @ (a @ '' '') @ (''| '' @ b)) (length ([] :: string)) 0 []"
    by simp
  also have "\<dots> = splitLoop ([] @ (a @ '' '') @ (''| '' @ b)) (length ([] :: string) + length (a @ '' '')) 0 []"
    using assms(1) by (intro splitLoop_skip) simp
  also have "\<dots> = splitLoop ([] @ a @ '' | '' @ b) (length ([] :: string) + length a + 1) (int 0) []"
    by simp
  also have "\<dots> = splitLoop ([] @ a @ '' | '' @ b) (length ([] :: string) + length a + 2)
      (int (length ([] :: string) + length a + 3)) ([] @ [drop 0 ([] @ a)])"
    using assms by (intro splitLoop_delimiter) simp_all
  also have "\<dots> = splitLoop ((a @ '' |'') @ ('' '' @ b) @ []) (length (a @ '' |'')) (int (length a + 3)) [a]"
    by simp
  also have "\<dots> = splitLoop ((a @ '' |'') @ ('' '' @ b) @ []) (length (a @ '' |'') + length ('' '' @ b))
      (int (length a + 3)) [a]"
    using assms(5) by (intro splitLoop_skip) simp
  also have "\<dots> = Inr (int (length a + 3), [a])"
    by (intro splitLoop_done) simp
  finally have l: "splitLoop ?s 0 0 [] = Inr (int (length a + 3), [a])" .
  have f: "charAt ?s 0 \<noteq> Some CHR '' ''"
    using assms(2,3) charAt_int [of ?s 0] by (simp add: nth_append hd_conv_nth)
  have "?s ! (length ?s - 1) = last ?s" by (simp add: last_conv_nth)
  also have "\<dots> = last b" using assms(6) by simp
  finally have "?s ! (length ?s - 1) \<noteq> CHR '' ''" using assms(8) by simp
  moreover have "int (length ?s) - 1 = int (length ?s - 1)" by (simp add: of_nat_diff)
  ultimately have e: "charAt ?s (int (length ?s) - 1) \<noteq> Some CHR '' ''"
    by (simp only: charAt_int) simp
  have d: "substringFrom ?s (int (length a + 3)) = b"
    unfolding substringFrom_def clamp_int by simp
  have n: "length ?s \<noteq> 0" by simp
  show ?thesis
    unfolding splitByPipes_def Let_def using l f e d n assms(6)
    by (simp del: of_nat_add length_append)
qed

lemma constructFullURL_empty: "constructFullURL base (JObject []) = Inr base"
  by (simp add: constructFullURL_def buildQueryString_def objectKeys_def)

lemma toUpperCase_methods: "toUpperCase ''GET'' = ''GET''" "toUpperCase ''POST'' = ''POST''"
  by (simp_all add: toUpperCase_def toUpperChar_def)

lemma processSegment_HTTP:
  assumes "M = ''GET'' \<or> M = ''POST''"
  shows "processSegment initialLocals (''HTTP '' @ M) =
           Inr (initialLocals\<lparr>seen := [''HTTP''], httpMethod := M\<rparr>)"
proof -
  have "processSegment initialLocals (''HTTP'' @ CHR '' '' # M) =
           Inr (initialLocals\<lparr>seen := [''HTTP''], httpMethod := M\<rparr>)"
    using assms toUpperCase_methods
    by (subst processSegment_eq)
       (auto simp: toUpperCase_allowed allowedKeywords_def initialLocals_def)
  then show ?thesis by simp
qed

lemma processSegment_URL:
  assumes "u \<noteq> []" "hd u \<noteq> CHR '' ''" "''URL'' \<notin> set (seen vars)"
  shows "processSegment vars (''URL '' @ u) = Inr (vars\<lparr>seen := ''URL'' # seen vars, baseURL := u\<rparr>)"
proof -
  have "processSegment vars (''URL'' @ CHR '' '' # u) =
          Inr (vars\<lparr>seen := ''URL'' # seen vars, baseURL := u\<rparr>)"
    using assms
    by (subst processSegment_eq) (auto simp: toUpperCase_allowed allowedKeywords_def)
  then show ?thesis by simp
qed

text \<open>
  C1. A statement \<^verbatim>\<open>HTTP <M> | URL <u>\<close> with \<open>M\<close> one of GET and POST is valid when \<open>u\<close> is
  not empty, holds no delimiter and does not end with a space (so that the segmenter cuts
  the statement into exactly these two segments) and does not begin with a space (one
  space after the keyword). Parsing it succeeds, and the descriptor has the method \<open>M\<close>,
  the url \<open>u\<close>, empty mappings for headers, query and body, and the full URL \<open>u\<close>.
\<close>

theorem minimal_statement:
  assumes "M = ''GET'' \<or> M = ''POST''"
    and "u \<noteq> []" "CHR ''|'' \<notin> set u" "hd u \<noteq> CHR '' ''" "last u \<noteq> CHR '' ''"
  shows "parseReqline (''HTTP '' @ M @ '' | URL '' @ u) =
           Inr \<lparr>method' = M, url = u, headers = JObject [], query = JObject [],
                body = JObject [], full_url = u\<rparr>"
proof -
  have s: "splitByPipes ((''HTTP '' @ M) @ '' | '' @ (''URL '' @ u)) = Inr [''HTTP '' @ M, ''URL '' @ u]"
    using assms by (intro splitByPipes_two) auto
  have l: "\<not> lacksPrefix [''HTTP '' @ M, ''URL '' @ u] 0 ''HTTP''"
    "\<not> lacksPrefix [''HTTP '' @ M, ''URL '' @ u] 1 ''URL''"
    by (simp_all add: lacksPrefix_def slice_def)
  have p: "segmentLoop initialLocals [''HTTP '' @ M, ''URL '' @ u] =
             Inr (initialLocals\<lparr>seen := [''URL'', ''HTTP''], httpMethod := M, baseURL := u\<rparr>)"
    using processSegment_HTTP [OF assms(1)]
      processSegment_URL [OF assms(2,4), of "initialLocals\<lparr>seen := [''HTTP''], httpMethod := M\<rparr>"]
    by simp
  have "assemble [''HTTP '' @ M, ''URL '' @ u] =
           Inr \<lparr>method' = M, url = u, headers = JObject [], query = JObject [],
                body = JObject [], full_url = u\<rparr>"
    unfolding assemble_def using l p
    by (simp add: constructFullURL_empty initialLocals_def)
  then show ?thesis using s by (simp add: parseReqline_def)
qed

theorem minimal_statement_witness:
  "(''POST'' = ''GET'' \<or> ''POST'' = ''POST'') \<and> ''http://example.com/a b'' \<noteq> []
   \<and> CHR ''|'' \<notin> set ''http://example.com/a b''
   \<and> hd ''http://example.com/a b'' \<noteq> CHR '' '' \<and> last ''http://example.com/a b'' \<noteq> CHR '' ''
   \<and> parseReqline ''HTTP POST | URL http://example.com/a b'' =
       Inr \<lparr>method' = ''POST'', url = ''http://example.com/a b'', headers = JObject [],
            query = JObject [], body = JObject [], full_url = ''http://example.com/a b''\<rparr>"
  using minimal_statement [of "''POST''" "''http://example.com/a b''"] by simp

section \<open>The segments of an accepted statement\<close>

text \<open>No segment the segmenter returns holds a delimiter.\<close>

lemma splitLoop_at_delimiter:
  assumes "i < length statement" "statement ! i = CHR ''|''"
    and "splitLoop statement i t segments = Inr r"
  shows "1 \<le> i \<and> statement ! (i - 1) = CHR '' ''
       \<and> splitLoop statement (Suc i) (int i + 2)
            (segments @ [substring statement t (int (i - 1))]) = Inr r"
proof -
  have u: "splitLoop statement i t segments =
     (if int i - 1 < 0
         \<or> int i + 1 \<ge> int (length statement)
         \<or> charAt statement (int i - 1) \<noteq> Some CHR '' ''
         \<or> charAt statement (int i + 1) \<noteq> Some CHR '' ''
         \<or> (int i - 2 \<ge> 0 \<and> charAt statement (int i - 2) = Some CHR '' '')
         \<or> (int i + 2 < int (length statement) \<and> charAt statement (int i + 2) = Some CHR '' '')
      then Inl (Error ''Invalid spacing around pipe delimiter'')
      else if length (substring statement t (int i - 1)) = 0
      then Inl (Error ''Invalid spacing around pipe delimiter'')
      else splitLoop statement (i + 1) (int i + 2) (segments @ [substring statement t (int i - 1)]))"
    using assms(1,2) by (subst splitLoop.simps) (simp add: Let_def)
  from assms(3) have a: "\<not> int i - 1 < 0" "charAt statement (int i - 1) = Some CHR '' ''"
    and b: "splitLoop statement (i + 1) (int i + 2) (segments @ [substring statement t (int i - 1)]) = Inr r"
    unfolding u by (simp_all split: if_splits)
  from a(1) have i: "1 \<le> i" by simp
  then have e: "int i - 1 = int (i - 1)" by simp
  from a(2) have c: "statement ! (i - 1) = CHR '' ''"
    unfolding e charAt_int by (simp split: if_splits)
  from b have "splitLoop statement (Suc i) (int i + 2)
            (segments @ [substring statement t (int (i - 1))]) = Inr r"
    unfolding e by simp
  with i c show ?thesis by blast
qed

lemma substring_forward:
  "a \<le> b \<Longrightarrow> b \<le> length s \<Longrightarrow> substring s (int a) (int b) = take (b - a) (drop a s)"
  unfolding substring_def clamp_int Let_def by (simp add: min_def max_def)

lemma substring_backward:
  "b \<le> a \<Longrightarrow> a \<le> length s \<Longrightarrow> substring s (int a) (int b) = take (a - b) (drop b s)"
  unfolding substring_def clamp_int Let_def by (simp add: min_def max_def)

lemma take_drop_free:
  assumes "\<forall>j. a \<le> j \<and> j < b \<longrightarrow> s ! j \<noteq> c" "b \<le> length s"
  shows "c \<notin> set (take (b - a) (drop a s))"
proof
  assume "c \<in> set (take (b - a) (drop a s))"
  then obtain n where n: "n < length (take (b - a) (drop a s))" "take (b - a) (drop a s) ! n = c"
    by (auto simp: in_set_conv_nth)
  from n(1) have l: "n < b - a" by simp
  with assms(2) have "a + n < length s" by simp
  with n(2) l have "s ! (a + n) = c" by simp
  moreover have "a \<le> a + n \<and> a + n < b" using l by simp
  ultimately show False using assms(1) by blast
qed

lemma splitLoop_segments:
  assumes "splitLoop statement i (int t) segments = Inr (t', segments')"
    and "scanned statement t i"
    and "\<forall>segment \<in> set segments. CHR ''|'' \<notin> set segment"
    and "i \<le> length statement"
  shows "(\<forall>segment \<in> set segments'. CHR ''|'' \<notin> set segment)
       \<and> (\<exists>n. t' = int n \<and> (\<forall>j. n \<le> j \<and> j < length statement \<longrightarrow> statement ! j \<noteq> CHR ''|''))"
  using assms
proof (induction "length statement - i" arbitrary: i t segments)
  case 0
  then have i: "i = length statement" by simp
  with "0.prems"(1) have r: "t' = int t" "segments' = segments" by (simp_all add: splitLoop.simps)
  have "\<forall>j. t \<le> j \<and> j < length statement \<longrightarrow> statement ! j \<noteq> CHR ''|''"
    using "0.prems"(2) i by (auto simp: scanned_def)
  with r "0.prems"(3) show ?case by blast
next
  case (Suc n)
  then have i: "i < length statement" and n: "n = length statement - Suc i" by simp_all
  show ?case
  proof (cases "statement ! i = CHR ''|''")
    case False
    have s: "splitLoop statement (Suc i) (int t) segments = Inr (t', segments')"
      using Suc.prems(1) i False by (simp add: splitLoop_other)
    have "scanned statement t (Suc i)"
      using Suc.prems(2) False by (auto simp: scanned_def less_Suc_eq)
    from Suc.hyps(1) [OF n s this Suc.prems(3)] i show ?thesis by simp
  next
    case True
    let ?segment = "substring statement (int t) (int (i - 1))"
    from splitLoop_at_delimiter [OF i True Suc.prems(1)]
    have i1: "1 \<le> i" and sp: "statement ! (i - 1) = CHR '' ''"
      and s0: "splitLoop statement (Suc i) (int i + 2) (segments @ [?segment]) = Inr (t', segments')"
      by blast+
    have "int i + 2 = int (i + 2)" by simp
    with s0 have s: "splitLoop statement (Suc i) (int (i + 2)) (segments @ [?segment]) = Inr (t', segments')"
      by (simp only:)
    from Suc.prems(2) sp have a: "t \<le> i" "\<forall>j. t \<le> j \<and> j < i \<longrightarrow> statement ! j \<noteq> CHR ''|''"
      by (auto simp: scanned_def)
    have f: "CHR ''|'' \<notin> set ?segment"
    proof (cases "t \<le> i - 1")
      case True
      have "\<forall>j. t \<le> j \<and> j < i - 1 \<longrightarrow> statement ! j \<noteq> CHR ''|''" using a(2) by auto
      moreover have "i - 1 \<le> length statement" using i by simp
      ultimately have "CHR ''|'' \<notin> set (take (i - 1 - t) (drop t statement))"
        by (rule take_drop_free)
      then show ?thesis using True i substring_forward [of t "i - 1" statement] by simp
    next
      case False
      then have "t = i" using a(1) by simp
      then have "?segment = take 1 (drop (i - 1) statement)"
        using i i1 substring_backward [of "i - 1" i statement] by simp
      also have "\<dots> = [statement ! (i - 1)]"
      proof -
        have "i - 1 < length statement" using i by simp
        then have "drop (i - 1) statement = statement ! (i - 1) # drop (Suc (i - 1)) statement"
          by (rule Cons_nth_drop_Suc [symmetric])
        then show ?thesis by simp
      qed
      finally show ?thesis using sp by simp
    qed
    then have g: "\<forall>segment \<in> set (segments @ [?segment]). CHR ''|'' \<notin> set segment"
      using Suc.prems(3) by simp
    have r: "scanned statement (i + 2) (Suc i)" using True by (simp add: scanned_def)
    from Suc.hyps(1) [OF n s r g] i show ?thesis by simp
  qed
qed

lemma splitByPipes_segments:
  assumes "splitByPipes statement = Inr segments" "segment \<in> set segments"
  shows "CHR ''|'' \<notin> set segment"
proof -
  from assms(1) obtain t' segments' where l: "splitLoop statement 0 (int 0) [] = Inr (t', segments')"
    and r: "segments = segments' @ [substringFrom statement t']"
    by (auto simp: splitByPipes_def Let_def split: if_splits sum.splits)
  have "scanned statement 0 0" by (simp add: scanned_def)
  from splitLoop_segments [OF l this] obtain n where
    p: "\<forall>segment \<in> set segments'. CHR ''|'' \<notin> set segment"
    and n: "t' = int n" "\<forall>j. n \<le> j \<and> j < length statement \<longrightarrow> statement ! j \<noteq> CHR ''|''"
    by auto
  have "CHR ''|'' \<notin> set (drop n statement)"
  proof (cases "n \<le> length statement")
    case True
    from take_drop_free [OF n(2)] show ?thesis by simp
  next
    case False
    then show ?thesis by simp
  qed
  moreover have "substringFrom statement t' = drop n statement"
    unfolding substringFrom_def n(1) clamp_int by (simp add: min_def)
  ultimately show ?thesis using p r assms(2) by auto
qed

text \<open>
  The hypotheses of C1 are needed: a statement \<^verbatim>\<open>HTTP <M> | URL <u>\<close> that parses to a
  descriptor with the url \<open>u\<close> has a \<open>u\<close> that is not empty, holds no delimiter and
  neither begins nor ends with a space.
\<close>

lemma segmentLoop_values:
  "segmentLoop vars segments = Inr vars' \<Longrightarrow> segment \<in> set segments \<Longrightarrow>
     valueOf segment \<noteq> [] \<and> hd (valueOf segment) \<noteq> CHR '' ''"
proof (induction segments arbitrary: vars)
  case Nil
  then show ?case by simp
next
  case (Cons first rest)
  from Cons.prems(1) obtain mid where m: "processSegment vars first = Inr mid"
    and r: "segmentLoop mid rest = Inr vars'"
    by (auto split: sum.splits)
  show ?case
  proof (cases "segment = first")
    case True
    then show ?thesis using processSegment_Inr [OF m] by simp
  next
    case False
    then have "segment \<in> set rest" using Cons.prems(2) by simp
    then show ?thesis using Cons.IH [OF r] by simp
  qed
qed

lemma sectionText_Some:
  "sectionText k segments = Some v \<Longrightarrow> \<exists>segment \<in> set segments. valueOf segment = v"
  by (auto simp: sectionText_def find_Some_iff)

lemma set_valueOf: "set (valueOf segment) \<subseteq> set segment"
  by (auto simp: valueOf_def dest: in_set_dropD set_dropWhileD)

lemma splitByPipes_last:
  assumes "splitByPipes statement = Inr segments"
  shows "statement \<noteq> [] \<and> last statement \<noteq> CHR '' ''"
proof -
  from assms have n: "statement \<noteq> []"
    and c: "charAt statement (int (length statement) - 1) \<noteq> Some CHR '' ''"
    by (auto simp: splitByPipes_def split: if_splits)
  from n obtain x xs where x: "statement = x # xs" by (cases statement) auto
  have "charAt (x # xs) (int (length (x # xs)) - 1) = Some (last (x # xs))"
    using charAt_int [of "x # xs" "length xs"] by (simp add: last_conv_nth)
  with c x show ?thesis by auto
qed

lemma minimal_statement_only_if:
  assumes "parseReqline (''HTTP '' @ M @ '' | URL '' @ u) = Inr d" and "url d = u"
  shows "u \<noteq> [] \<and> CHR ''|'' \<notin> set u \<and> hd u \<noteq> CHR '' '' \<and> last u \<noteq> CHR '' ''"
proof -
  let ?s = "''HTTP '' @ M @ '' | URL '' @ u"
  from assms(1) obtain segments where s: "splitByPipes ?s = Inr segments"
    and a: "assemble segments = Inr d"
    by (auto simp: parseReqline_def split: sum.splits)
  from assemble_Inr [OF a] obtain vars where l: "segmentLoop initialLocals segments = Inr vars"
    and t: "tracks vars segments" and k: "''URL'' \<in> keywordOf ` set segments"
    and b: "url d = baseURL vars"
    by auto
  from k have "sectionText ''URL'' segments \<noteq> None" by (simp add: sectionText_None)
  with t b assms(2) have "sectionText ''URL'' segments = Some u"
    by (auto simp: tracks_def split: if_splits)
  from sectionText_Some [OF this] obtain segment where g: "segment \<in> set segments" "valueOf segment = u"
    by auto
  from segmentLoop_values [OF l g(1)] g(2) have n: "u \<noteq> []" "hd u \<noteq> CHR '' ''" by simp_all
  from splitByPipes_segments [OF s g(1)] set_valueOf [of segment] g(2)
  have p: "CHR ''|'' \<notin> set u" by auto
  from splitByPipes_last [OF s] n(1) have "last u \<noteq> CHR '' ''" by simp
  with n p show ?thesis by simp
qed

section \<open>The segmenter on adjacent delimiters\<close>

lemma splitLoop_adjacent:
  assumes "b \<noteq> []" "hd b \<noteq> CHR '' ''"
  shows "splitLoop (p @ ''| | '' @ b) (length p + 2) (int (length p + 2)) segments =
         splitLoop (p @ ''| | '' @ b) (length p + 3) (int (length p + 4)) (segments @ ['' ''])"
proof -
  let ?s = "p @ ''| | '' @ b"
  let ?n = "length p"
  have i: "?s ! (?n + 2) = CHR ''|''" by (simp add: nth_append)
  have e1: "int (?n + 2) - 1 = int (?n + 1)" "int (?n + 2) + 1 = int (?n + 3)"
    "int (?n + 2) + 2 = int (?n + 4)" "int (?n + 2) - 2 = int ?n"
    by simp_all
  have b1: "charAt ?s (int (?n + 1)) = Some CHR '' ''"
    using charAt_int [of ?s "?n + 1"] by (simp add: nth_append)
  have a1: "charAt ?s (int (?n + 3)) = Some CHR '' ''"
    using charAt_int [of ?s "?n + 3"] by (simp add: nth_append)
  have b2: "charAt ?s (int ?n) \<noteq> Some CHR '' ''"
    using charAt_int [of ?s ?n] by (simp add: nth_append)
  have "?s ! (?n + 4) = hd b"
    using assms(1) by (simp add: nth_append hd_conv_nth)
  then have a2: "charAt ?s (int (?n + 4)) \<noteq> Some CHR '' ''"
    using assms charAt_int [of ?s "?n + 4"] by simp
  define seg where "seg = '' ''"
  have "substring ?s (int (?n + 2)) (int (?n + 1)) = take 1 (drop (?n + 1) ?s)"
    using substring_backward [of "?n + 1" "?n + 2" ?s] by simp
  then have seg: "substring ?s (int (?n + 2)) (int (?n + 1)) = seg"
    by (simp add: seg_def)
  have ne: "seg \<noteq> []" by (simp add: seg_def)
  have l: "?n + 2 < length ?s" "int (?n + 3) < int (length ?s)" using assms(1) by simp_all
  have "splitLoop ?s (?n + 2) (int (?n + 2)) segments =
        splitLoop ?s (?n + 3) (int (?n + 4)) (segments @ [seg])"
    apply (subst splitLoop.simps)
    unfolding Let_def e1
    using i b1 a1 b2 a2 seg ne l
    apply (simp del: of_nat_add)
    apply (simp add: eval_nat_numeral)
    done
  then show ?thesis by (simp add: seg_def)
qed

text \<open>
  C2. Two delimiters with one space between them, as in \<^verbatim>\<open>A | | B\<close>, enclose an empty
  segment, and the segmenter should fail with the pipe-spacing error. It does not: the
  second delimiter stands two places after the first, so the segment between them is cut
  by \<^verbatim>\<open>substring(i, i - 1)\<close>; the start lies behind the end, the two are exchanged, and the
  segment is the one space before the delimiter. Its length is not 0, the check for an
  empty segment does not fire, and the segmenter returns the segments around the two
  delimiters with a segment of one space between them.
\<close>

theorem splitByPipes_adjacent_delimiters:
  assumes "CHR ''|'' \<notin> set a" "a \<noteq> []" "hd a \<noteq> CHR '' ''" "last a \<noteq> CHR '' ''"
    and "CHR ''|'' \<notin> set b" "b \<noteq> []" "hd b \<noteq> CHR '' ''" "last b \<noteq> CHR '' ''"
  shows "splitByPipes (a @ '' | | '' @ b) = Inr [a, '' '', b]"
proof -
  let ?s = "a @ '' | | '' @ b"
  have "splitLoop ?s 0 0 [] = splitLoop ([] @ (a @ '' '') @ (''| | '' @ b)) (length ([] :: string)) 0 []"
    by (simp add: ac_simps eval_nat_numeral)
  also have "\<dots> = splitLoop ([] @ (a @ '' '') @ (''| | '' @ b)) (length ([] :: string) + length (a @ '' '')) 0 []"
    using assms(1) by (intro splitLoop_skip) simp
  also have "\<dots> = splitLoop ([] @ a @ '' | '' @ (''| '' @ b)) (length ([] :: string) + length a + 1) (int 0) []"
    by (simp add: ac_simps eval_nat_numeral)
  also have "\<dots> = splitLoop ([] @ a @ '' | '' @ (''| '' @ b)) (length ([] :: string) + length a + 2)
      (int (length ([] :: string) + length a + 3)) ([] @ [drop 0 ([] @ a)])"
    using assms by (intro splitLoop_delimiter) simp_all
  also have "\<dots> = splitLoop ((a @ '' |'') @ '' '' @ (''| '' @ b)) (length (a @ '' |'')) (int (length a + 3)) [a]"
    by (simp add: ac_simps eval_nat_numeral)
  also have "\<dots> = splitLoop ((a @ '' |'') @ '' '' @ (''| '' @ b)) (length (a @ '' |'') + length '' '')
      (int (length a + 3)) [a]"
    by (intro splitLoop_skip) simp
  also have "\<dots> = splitLoop ((a @ '' '') @ ''| | '' @ b) (length (a @ '' '') + 2)
      (int (length (a @ '' '') + 2)) [a]"
    by (simp add: ac_simps eval_nat_numeral)
  also have "\<dots> = splitLoop ((a @ '' '') @ ''| | '' @ b) (length (a @ '' '') + 3)
      (int (length (a @ '' '') + 4)) ([a] @ ['' ''])"
    using assms(6,7) by (rule splitLoop_adjacent)
  also have "\<dots> = splitLoop ((a @ '' | |'') @ ('' '' @ b) @ []) (length (a @ '' | |''))
      (int (length a + 5)) [a, '' '']"
    by (simp add: ac_simps eval_nat_numeral)
  also have "\<dots> = splitLoop ((a @ '' | |'') @ ('' '' @ b) @ []) (length (a @ '' | |'') + length ('' '' @ b))
      (int (length a + 5)) [a, '' '']"
    using assms(5) by (intro splitLoop_skip) simp
  also have "\<dots> = Inr (int (length a + 5), [a, '' ''])"
    by (intro splitLoop_done) simp
  finally have l: "splitLoop ?s 0 0 [] = Inr (int (length a + 5), [a, '' ''])" .
  have f: "charAt ?s 0 \<noteq> Some CHR '' ''"
    using assms(2,3) charAt_int [of ?s 0] by (simp add: nth_append hd_conv_nth)
  have "?s ! (length ?s - 1) = last ?s" by (simp add: last_conv_nth)
  also have "\<dots> = last b" using assms(6) by simp
  finally have "?s ! (length ?s - 1) \<noteq> CHR '' ''" using assms(8) by simp
  moreover have "int (length ?s) - 1 = int (length ?s - 1)" by (simp add: of_nat_diff)
  ultimately have e: "charAt ?s (int (length ?s) - 1) \<noteq> Some CHR '' ''"
    by (simp only: charAt_int) simp
  have d: "substringFrom ?s (int (length a + 5)) = b"
    unfolding substringFrom_def clamp_int by simp
  have n: "length ?s \<noteq> 0" by simp
  show ?thesis
    unfolding splitByPipes_def Let_def using l f e d n assms(6)
    by (simp del: of_nat_add length_append)
qed

theorem splitByPipes_adjacent_delimiters_witness:
  "CHR ''|'' \<notin> set ''A'' \<and> ''A'' \<noteq> [] \<and> hd ''A'' \<noteq> CHR '' '' \<and> last ''A'' \<noteq> CHR '' ''
   \<and> CHR ''|'' \<notin> set ''B'' \<and> ''B'' \<noteq> [] \<and> hd ''B'' \<noteq> CHR '' '' \<and> last ''B'' \<noteq> CHR '' ''
   \<and> splitByPipes ''A | | B'' = Inr [''A'', '' '', ''B'']"
  using splitByPipes_adjacent_delimiters [of "''A''" "''B''"] by simp

text \<open>
  The same by evaluation, and what the assembler makes of such a statement: it fails on
  the segment of one space, with the unknown-keyword error.
\<close>

lemma adjacent_delimiters_evaluated:
  "splitByPipes ''A | | B'' = Inr [''A'', '' '', ''B'']
   \<and> substring ''A | | B'' 4 3 = '' ''
   \<and> parseReqline ''HTTP GET | URL http://x | | BODY {}'' = Inl (Error ''Keywords must be uppercase'')"
  by code_simp

section \<open>The order of the sections\<close>

lemma splitByPipes_nonempty: "splitByPipes statement = Inr segments \<Longrightarrow> segments \<noteq> []"
  by (auto simp: splitByPipes_def Let_def split: if_splits sum.splits)

lemma lacksPrefix_take:
  "segments \<noteq> [] \<Longrightarrow> lacksPrefix segments 0 ''HTTP'' \<longleftrightarrow> take 4 (segments ! 0) \<noteq> ''HTTP''"
  "lacksPrefix segments 1 ''URL'' \<longleftrightarrow> length segments < 2 \<or> take 3 (segments ! 1) \<noteq> ''URL''"
  by (auto simp: lacksPrefix_def slice_def eval_nat_numeral)

lemma missing_keywords:
  assumes "splitByPipes statement = Inr segments"
  shows "take 4 (segments ! 0) \<noteq> ''HTTP'' \<Longrightarrow>
           parseReqline statement = Inl (Error ''Missing required HTTP keyword'')"
    and "take 4 (segments ! 0) = ''HTTP'' \<Longrightarrow> length segments < 2 \<or> take 3 (segments ! 1) \<noteq> ''URL'' \<Longrightarrow>
           parseReqline statement = Inl (Error ''Missing required URL keyword'')"
  using assms splitByPipes_nonempty [OF assms] lacksPrefix_take [of segments]
  by (simp_all add: parseReqline_def assemble_def)

text \<open>
  C3, as the code has it. For every statement the segmenter accepts: when the first segment
  does not begin with the four characters HTTP, assembling fails with the
  missing-HTTP-keyword error; when it does, and there is no second segment or the second
  segment does not begin with the three characters URL, assembling fails with the
  missing-URL-keyword error. Both checks come before the loop over the segments, so these
  errors win over any unknown-keyword, upper-case or spacing error of the segments. The
  checks compare a prefix only, not the keyword of the segment.
\<close>

theorem ordering_errors_first:
  assumes "splitByPipes statement = Inr segments"
  shows "(take 4 (segments ! 0) \<noteq> ''HTTP'' \<longrightarrow>
            parseReqline statement = Inl (Error ''Missing required HTTP keyword''))
       \<and> (take 4 (segments ! 0) = ''HTTP'' \<and> (length segments < 2 \<or> take 3 (segments ! 1) \<noteq> ''URL'') \<longrightarrow>
            parseReqline statement = Inl (Error ''Missing required URL keyword''))"
  using missing_keywords [OF assms] by blast

theorem ordering_errors_first_witness:
  "splitByPipes ''foo get | URL  x'' = Inr [''foo get'', ''URL  x'']
   \<and> take 4 ([''foo get'', ''URL  x''] ! 0) \<noteq> ''HTTP''
   \<and> parseReqline ''foo get | URL  x'' = Inl (Error ''Missing required HTTP keyword'')
   \<and> splitByPipes ''HTTP  get | url x'' = Inr [''HTTP  get'', ''url x'']
   \<and> take 4 ([''HTTP  get'', ''url x''] ! 0) = ''HTTP''
   \<and> take 3 ([''HTTP  get'', ''url x''] ! 1) \<noteq> ''URL''
   \<and> parseReqline ''HTTP  get | url x'' = Inl (Error ''Missing required URL keyword'')"
proof -
  have a: "splitByPipes ''foo get | URL  x'' = Inr [''foo get'', ''URL  x'']" by code_simp
  have b: "splitByPipes ''HTTP  get | url x'' = Inr [''HTTP  get'', ''url x'']" by code_simp
  from ordering_errors_first [OF a] ordering_errors_first [OF b] a b show ?thesis by simp
qed

text \<open>
  The first segment \<^verbatim>\<open>HTTPS GET\<close> has the keyword HTTPS: it is not an HTTP section, yet it
  passes the check of the order and the statement fails with the unknown-keyword error.
  Likewise for a second segment with the keyword URLS.
\<close>

theorem https_keyword_counterexample:
  "splitByPipes ''HTTPS GET | URL http://x'' = Inr [''HTTPS GET'', ''URL http://x'']
   \<and> keywordOf ''HTTPS GET'' = ''HTTPS''
   \<and> parseReqline ''HTTPS GET | URL http://x'' = Inl (Error ''Keywords must be uppercase'')
   \<and> parseReqline ''HTTP GET | URLS http://x'' = Inl (Error ''Keywords must be uppercase'')"
  by code_simp

section \<open>The empty statement\<close>

text \<open>
  C6, as the code has it. For the empty statement the segmenter fails with the error
  \<^verbatim>\<open>Missing required HTTP keyword\<close>. It is the very error the assembler raises when the
  first segment of a statement is not HTTP: the source has no error of its own for an
  empty statement.
\<close>

theorem empty_statement_error:
  "splitByPipes [] = Inl (Error ''Missing required HTTP keyword'')
   \<and> parseReqline [] = Inl (Error ''Missing required HTTP keyword'')
   \<and> (splitByPipes statement = Inr segments \<and> take 4 (segments ! 0) \<noteq> ''HTTP'' \<longrightarrow>
        parseReqline statement = Inl (Error ''Missing required HTTP keyword''))"
  using missing_keywords(1) [of statement segments]
  by (auto simp: splitByPipes_def parseReqline_def)

theorem empty_statement_error_witness:
  "splitByPipes [] = Inl (Error ''Missing required HTTP keyword'')
   \<and> splitByPipes ''URL http://x | HTTP GET'' = Inr [''URL http://x'', ''HTTP GET'']
   \<and> take 4 ([''URL http://x'', ''HTTP GET''] ! 0) \<noteq> ''HTTP''
   \<and> parseReqline ''URL http://x | HTTP GET'' = Inl (Error ''Missing required HTTP keyword'')"
proof -
  have a: "splitByPipes ''URL http://x | HTTP GET'' = Inr [''URL http://x'', ''HTTP GET'']"
    by code_simp
  from empty_statement_error [of "''URL http://x | HTTP GET''" "[''URL http://x'', ''HTTP GET'']"] a
  show ?thesis by simp
qed

text \<open>The empty statement and a statement that begins with its URL section fail alike.\<close>

theorem empty_statement_error_counterexample:
  "splitByPipes [] = Inl (Error ''Missing required HTTP keyword'')
   \<and> parseReqline ''URL http://x | HTTP GET'' = Inl (Error ''Missing required HTTP keyword'')"
  by code_simp

section \<open>The URL builder on a mapping\<close>










section \<open>The messages of the errors\<close>









section \<open>The answers of the handler\<close>

lemma handler_without_statement:
  assumes "reqlineString rc = None"
  shows "handler client requestStart requestStop rc = (failure ''Invalid reqline input'', [])"
proof (cases "rc_body rc")
  case None
  then show ?thesis by (simp add: handler_def)
next
  case (Some props)
  show ?thesis
  proof (cases "map_of props ''reqline''")
    case None
    with Some show ?thesis by (simp add: handler_def lookup_def)
  next
    case (Some v)
    with assms \<open>rc_body rc = Some props\<close> show ?thesis
      by (cases v) (simp_all add: handler_def lookup_def reqlineString_def)
  qed
qed






text \<open>
  C10. For every request whose body is missing, has no field \<^verbatim>\<open>reqline\<close>, or has one that
  is not a string, the handler answers with status 400 and the message
  \<^verbatim>\<open>Invalid reqline input\<close>, and makes no call of the HTTP client.
\<close>

theorem handler_invalid_input:
  assumes "reqlineString rc = None"
  shows "handler client requestStart requestStop rc =
           (\<lparr>status = 400, data = JObject [(''error'', JBool True),
               (''message'', JString ''Invalid reqline input'')]\<rparr>, [])"
  using handler_without_statement [OF assms] by (simp add: failure_def)

theorem handler_invalid_input_witness:
  "reqlineString \<lparr>rc_body = Some [(''reqline'', JNumber 5 0)]\<rparr> = None
   \<and> reqlineString \<lparr>rc_body = Some [(''other'', JString ''HTTP GET | URL http://x'')]\<rparr> = None
   \<and> reqlineString \<lparr>rc_body = None\<rparr> = None
   \<and> handler (\<lambda>call. Resolved JNull) 10 25 \<lparr>rc_body = Some [(''reqline'', JNumber 5 0)]\<rparr> =
       (\<lparr>status = 400, data = JObject [(''error'', JBool True),
               (''message'', JString ''Invalid reqline input'')]\<rparr>, [])"
proof -
  have a: "reqlineString \<lparr>rc_body = Some [(''reqline'', JNumber 5 0)]\<rparr> = None"
    by (simp add: reqlineString_def)
  have "reqlineString \<lparr>rc_body = Some [(''other'', JString ''HTTP GET | URL http://x'')]\<rparr> = None"
    "reqlineString \<lparr>rc_body = None\<rparr> = None"
    by (simp_all add: reqlineString_def)
  with handler_invalid_input [OF a, of "\<lambda>call. Resolved JNull" 10 25] a show ?thesis by simp
qed

end
